theory Spec2Isabelle
  imports Complex_Main "HOL-Library.Char_ord" "HOL-Library.List_Lexorder"
begin

section \<open>Data model\<close>

text \<open>
  The prediction pipeline of \<^verbatim>\<open>scripts/run_prediction.py\<close> works on pandas data frames.
  A frame is modelled column-wise: a row count (the index) and an ordered association list
  from column names to typed columns. The three dtypes that occur are numeric columns,
  object columns holding strings, and boolean columns.

  Floating point numbers are modelled as real numbers, so the model speaks about finite
  values only: \<^verbatim>\<open>nan\<close> and the infinities have no counterpart, and rounding is not
  represented.
\<close>

datatype column = NumCol "real list" | StrCol "string list" | BoolCol "bool list"

record table =
  nrows :: nat
  cols :: "(string \<times> column) list"

text \<open>A single value of a column, as it is printed in a message.\<close>

datatype cell = N real | S string | B bool

text \<open>
  The exceptions of the pipeline. \<open>GatingError\<close> is the \<^verbatim>\<open>ValueError\<close> of
  \<^verbatim>\<open>stain_sannity_check\<close>; it carries what the message interpolates: the channel, the
  observed minimum and maximum (\<open>None\<close> is pandas' \<^verbatim>\<open>nan\<close> for a column without rows), the
  sign and the threshold. \<open>NonFinite\<close> marks a result that leaves the real-valued model.
\<close>

datatype error =
    KeyError string
  | TypeError
  | ValueError string
  | GatingError string "cell option" "cell option" string "real option"
  | OSError
  | NonFinite

section \<open>Heterogeneity: the simple metric\<close>

text \<open>
  \<^verbatim>\<open>np.ptp\<close> of one column: maximum minus minimum, each found by one pass over the values.
  A column without values has no range.
\<close>

fun ptp :: "real list \<Rightarrow> real option" where
  "ptp [] = None"
| "ptp (x # xs) = Some (fold max xs x - fold min xs x)"

definition mean :: "real list \<Rightarrow> real" where
  "mean xs = sum_list xs / real (length xs)"

text \<open>
  \<^verbatim>\<open>hetero_simple(data)\<close>: \<^verbatim>\<open>ranges = data.apply(np.ptp, axis=0)\<close>, then
  \<^verbatim>\<open>np.sum(ranges.mean())\<close>. The argument is the list of the numeric feature columns.
  A frame without columns or without rows takes pandas' empty-frame path, which computes
  no range at all; the model returns \<open>None\<close> there.
\<close>

definition hetero_simple :: "real list list \<Rightarrow> real option" where
  "hetero_simple data =
     (if data = [] \<or> [] \<in> set data then None
      else Some (mean (map (\<lambda>c. the (ptp c)) data)))"

section \<open>Uncertainty: entropy and threshold\<close>

text \<open>
  \<^verbatim>\<open>scipy.special.entr\<close> on a non-negative argument: \<open>- x ln x\<close>, and \<open>0\<close> at \<open>0\<close>.
\<close>

definition entr :: "real \<Rightarrow> real" where
  "entr x = (if x = 0 then 0 else - x * ln x)"

text \<open>
  \<^verbatim>\<open>scipy.stats.entropy(pk)\<close> with the natural logarithm: the vector is normalised by its
  sum and the \<open>entr\<close> values are added. The result is not finite when the sum is zero
  (division by zero) or when a normalised entry is negative (\<open>entr\<close> gives \<open>-inf\<close>); the
  model returns \<open>None\<close> in these cases.
\<close>

definition entropy :: "real list \<Rightarrow> real option" where
  "entropy pk =
     (let s = sum_list pk; qs = map (\<lambda>p. p / s) pk
      in if pk \<noteq> [] \<and> s = 0 then None
         else if \<exists>q \<in> set qs. q < 0 then None
         else Some (sum_list (map entr qs)))"

text \<open>
  Lines 84-92 of \<^verbatim>\<open>predict\<close>: the threshold check when filtering is enabled.
  \<open>number_of_classes\<close> is \<^verbatim>\<open>len(label_encoder.classes_)\<close>; \<^verbatim>\<open>math.log(0)\<close> raises a
  \<^verbatim>\<open>ValueError\<close>. The result is the threshold that the filter uses.
\<close>

definition get_uncertainty_threshold :: "nat \<Rightarrow> real \<Rightarrow> error + real" where
  "get_uncertainty_threshold number_of_classes uncertainty_threshold =
     (if number_of_classes = 0 then Inl (ValueError ''math domain error'')
      else let max_entropy = ln (real number_of_classes)
        in if (uncertainty_threshold < 0 \<and> uncertainty_threshold \<noteq> - 1)
              \<or> uncertainty_threshold > max_entropy
           then Inl (ValueError ''Uncertainty threshold must be between 0 and 1.'')
           else if uncertainty_threshold = - 1 then Inr (0.5 * max_entropy)
           else Inr uncertainty_threshold)"

section \<open>Data frame operations\<close>

text \<open>\<^verbatim>\<open>df[name]\<close>: a missing column raises \<^verbatim>\<open>KeyError\<close>.\<close>

definition get_col :: "table \<Rightarrow> string \<Rightarrow> error + column" where
  "get_col df name =
     (case map_of (cols df) name of None \<Rightarrow> Inl (KeyError name) | Some c \<Rightarrow> Inr c)"

text \<open>
  \<^verbatim>\<open>df[name] = c\<close>: an existing column is replaced where it stands, a new one is appended.
\<close>

fun set_col_list :: "string \<Rightarrow> column \<Rightarrow> (string \<times> column) list \<Rightarrow> (string \<times> column) list" where
  "set_col_list name c [] = [(name, c)]"
| "set_col_list name c (p # ps) =
     (if fst p = name then (name, c) # ps else p # set_col_list name c ps)"

definition set_col :: "string \<Rightarrow> column \<Rightarrow> table \<Rightarrow> table" where
  "set_col name c df = df\<lparr>cols := set_col_list name c (cols df)\<rparr>"

text \<open>\<^verbatim>\<open>df.pop(name)\<close>, the frame that is left.\<close>

definition pop_col :: "string \<Rightarrow> table \<Rightarrow> table" where
  "pop_col name df = df\<lparr>cols := filter (\<lambda>p. fst p \<noteq> name) (cols df)\<rparr>"

text \<open>
  The loop over \<^verbatim>\<open>select_dtypes(include=[np.number])\<close>: every numeric column is replaced by
  \<^verbatim>\<open>np.arcsinh(column / cofactor)\<close>; string and boolean columns are not numeric and stay.
  (With a cofactor of zero numpy produces non-finite values, which the reals do not have.)
\<close>

fun arcsinh_column :: "real \<Rightarrow> column \<Rightarrow> column" where
  "arcsinh_column cofactor (NumCol xs) = NumCol (map (\<lambda>x. arsinh (x / cofactor)) xs)"
| "arcsinh_column cofactor (StrCol xs) = StrCol xs"
| "arcsinh_column cofactor (BoolCol bs) = BoolCol bs"

definition arcsinh_numeric :: "real \<Rightarrow> table \<Rightarrow> table" where
  "arcsinh_numeric cofactor df =
     df\<lparr>cols := map (\<lambda>p. (fst p, arcsinh_column cofactor (snd p))) (cols df)\<rparr>"

text \<open>
  \<^verbatim>\<open>df[channel] > threshold\<close> and \<^verbatim>\<open>df[channel] < threshold\<close>. A boolean column compares
  as 0 and 1; comparing strings with a number raises \<^verbatim>\<open>TypeError\<close> at the first element;
  against \<^verbatim>\<open>None\<close> pandas answers \<^verbatim>\<open>False\<close> everywhere.
\<close>

fun col_gt :: "column \<Rightarrow> real option \<Rightarrow> error + bool list" where
  "col_gt (NumCol xs) (Some t) = Inr (map (\<lambda>x. x > t) xs)"
| "col_gt (BoolCol bs) (Some t) = Inr (map (\<lambda>b. of_bool b > t) bs)"
| "col_gt (StrCol xs) (Some t) = (if xs = [] then Inr [] else Inl TypeError)"
| "col_gt (NumCol xs) None = Inr (map (\<lambda>_. False) xs)"
| "col_gt (BoolCol bs) None = Inr (map (\<lambda>_. False) bs)"
| "col_gt (StrCol xs) None = Inr (map (\<lambda>_. False) xs)"

fun col_lt :: "column \<Rightarrow> real option \<Rightarrow> error + bool list" where
  "col_lt (NumCol xs) (Some t) = Inr (map (\<lambda>x. x < t) xs)"
| "col_lt (BoolCol bs) (Some t) = Inr (map (\<lambda>b. of_bool b < t) bs)"
| "col_lt (StrCol xs) (Some t) = (if xs = [] then Inr [] else Inl TypeError)"
| "col_lt (NumCol xs) None = Inr (map (\<lambda>_. False) xs)"
| "col_lt (BoolCol bs) None = Inr (map (\<lambda>_. False) bs)"
| "col_lt (StrCol xs) None = Inr (map (\<lambda>_. False) xs)"

text \<open>\<^verbatim>\<open>df[name] == b\<close> for a boolean \<open>b\<close>.\<close>

fun col_eq_bool :: "column \<Rightarrow> bool \<Rightarrow> bool list" where
  "col_eq_bool (BoolCol bs) b = map (\<lambda>x. x = b) bs"
| "col_eq_bool (NumCol xs) b = map (\<lambda>x. x = of_bool b) xs"
| "col_eq_bool (StrCol xs) b = map (\<lambda>_. False) xs"

text \<open>\<^verbatim>\<open>df[name] == s\<close> for a string \<open>s\<close>.\<close>

fun col_eq_str :: "column \<Rightarrow> string \<Rightarrow> bool list" where
  "col_eq_str (StrCol xs) s = map (\<lambda>x. x = s) xs"
| "col_eq_str (NumCol xs) s = map (\<lambda>_. False) xs"
| "col_eq_str (BoolCol bs) s = map (\<lambda>_. False) bs"

text \<open>
  Assignment through a boolean mask, \<^verbatim>\<open>column.loc[mask] = v\<close>: the masked positions take
  \<open>v\<close>, the others keep their value.
\<close>

definition where_set :: "bool list \<Rightarrow> 'a \<Rightarrow> 'a list \<Rightarrow> 'a list" where
  "where_set hits v xs = map2 (\<lambda>m x. if m then v else x) hits xs"

text \<open>Row selection by a boolean mask, \<^verbatim>\<open>df[mask]\<close>.\<close>

definition select :: "bool list \<Rightarrow> 'a list \<Rightarrow> 'a list" where
  "select hits xs = map snd (filter fst (zip hits xs))"

fun select_column :: "bool list \<Rightarrow> column \<Rightarrow> column" where
  "select_column hits (NumCol xs) = NumCol (select hits xs)"
| "select_column hits (StrCol xs) = StrCol (select hits xs)"
| "select_column hits (BoolCol bs) = BoolCol (select hits bs)"

definition select_rows :: "bool list \<Rightarrow> table \<Rightarrow> table" where
  "select_rows hits df =
     \<lparr>nrows = length (filter id (take (nrows df) hits)),
      cols = map (\<lambda>p. (fst p, select_column hits (snd p))) (cols df)\<rparr>"

fun col_len :: "column \<Rightarrow> nat" where
  "col_len (NumCol xs) = length xs"
| "col_len (StrCol xs) = length xs"
| "col_len (BoolCol bs) = length bs"

text \<open>A frame is rectangular and its column names are distinct.\<close>

definition wf_table :: "table \<Rightarrow> bool" where
  "wf_table df \<longleftrightarrow>
     distinct (map fst (cols df)) \<and> (\<forall>p \<in> set (cols df). col_len (snd p) = nrows df)"

section \<open>Gating\<close>

text \<open>
  \<^verbatim>\<open>np.min\<close> and \<^verbatim>\<open>np.max\<close> of a column, as the message of the sanity check shows them;
  a column without rows gives \<^verbatim>\<open>nan\<close>, modelled by \<open>None\<close>.
\<close>

fun col_min :: "column \<Rightarrow> cell option" where
  "col_min (NumCol []) = None"
| "col_min (NumCol (x # xs)) = Some (N (fold min xs x))"
| "col_min (StrCol []) = None"
| "col_min (StrCol (x # xs)) = Some (S (fold min xs x))"
| "col_min (BoolCol []) = None"
| "col_min (BoolCol (x # xs)) = Some (B (fold min xs x))"

fun col_max :: "column \<Rightarrow> cell option" where
  "col_max (NumCol []) = None"
| "col_max (NumCol (x # xs)) = Some (N (fold max xs x))"
| "col_max (StrCol []) = None"
| "col_max (StrCol (x # xs)) = Some (S (fold max xs x))"
| "col_max (BoolCol []) = None"
| "col_max (BoolCol (x # xs)) = Some (B (fold max xs x))"

text \<open>
  \<^verbatim>\<open>b in df[label].value_counts().index\<close>. At every call the label column is the boolean
  column that was just written; the index of a numeric or of a string column holds
  neither \<^verbatim>\<open>True\<close> nor \<^verbatim>\<open>False\<close>.
\<close>

fun col_has :: "column \<Rightarrow> bool \<Rightarrow> bool" where
  "col_has (BoolCol bs) b = (b \<in> set bs)"
| "col_has (NumCol xs) b = False"
| "col_has (StrCol xs) b = False"

text \<open>
  \<^verbatim>\<open>stain_sannity_check(df, label, channel, sign, threshold)\<close>: the gate must give both
  \<^verbatim>\<open>True\<close> and \<^verbatim>\<open>False\<close>, otherwise a \<^verbatim>\<open>ValueError\<close> reports the range of the channel
  and the configured gate.
\<close>

definition stain_sannity_check ::
  "table \<Rightarrow> string \<Rightarrow> string \<Rightarrow> string \<Rightarrow> real option \<Rightarrow> error + unit" where
  "stain_sannity_check df label channel sign threshold =
     (case get_col df label of
        Inl e \<Rightarrow> Inl e
      | Inr counts \<Rightarrow>
          if \<not> col_has counts True \<or> \<not> col_has counts False then
            (case get_col df channel of
               Inl e \<Rightarrow> Inl e
             | Inr c \<Rightarrow> Inl (GatingError channel (col_min c) (col_max c) sign threshold))
          else Inr ())"

text \<open>
  The block of \<^verbatim>\<open>apply_gating\<close> for one primary stain (lines 225-236 for \<^verbatim>\<open>dead\<close>,
  238-249 for \<^verbatim>\<open>cell\<close>): the label column starts all \<^verbatim>\<open>False\<close>, the rows that satisfy
  the relation are set to \<^verbatim>\<open>True\<close>, the column is checked and the label is recorded.
  A relation other than the four spellings writes nothing before the check.
\<close>

definition primary_stain ::
  "string \<Rightarrow> string option \<Rightarrow> string \<Rightarrow> real option \<Rightarrow> table \<Rightarrow> string list
     \<Rightarrow> error + (table \<times> string list)" where
  "primary_stain label stain relation threshold df all_labels =
     (case stain of
        None \<Rightarrow> Inr (df, all_labels)
      | Some channel \<Rightarrow>
          let init = replicate (nrows df) False;
              df1 = set_col label (BoolCol init) df;
              written =
                (if relation \<in> set [''>'', ''greater_than''] then
                   (case get_col df1 channel of
                      Inl e \<Rightarrow> Inl e
                    | Inr c \<Rightarrow>
                       (case col_gt c threshold of
                          Inl e \<Rightarrow> Inl e
                        | Inr hits \<Rightarrow> Inr (set_col label (BoolCol (where_set hits True init)) df1)))
                 else if relation \<in> set [''<'', ''less_than''] then
                   (case get_col df1 channel of
                      Inl e \<Rightarrow> Inl e
                    | Inr c \<Rightarrow>
                       (case col_lt c threshold of
                          Inl e \<Rightarrow> Inl e
                        | Inr hits \<Rightarrow> Inr (set_col label (BoolCol (where_set hits True init)) df1)))
                 else Inr df1)
          in case written of
               Inl e \<Rightarrow> Inl e
             | Inr df2 \<Rightarrow>
                (case stain_sannity_check df2 label channel relation threshold of
                   Inl e \<Rightarrow> Inl e
                 | Inr _ \<Rightarrow> Inr (df2, all_labels @ [label])))"

text \<open>Python truthiness of an optional string and of an optional number.\<close>

fun truthy_str :: "string option \<Rightarrow> bool" where
  "truthy_str None = False"
| "truthy_str (Some s) = (s \<noteq> [])"

fun truthy_num :: "real option \<Rightarrow> bool" where
  "truthy_num None = False"
| "truthy_num (Some x) = (x \<noteq> 0)"

text \<open>
  Lines 254-262: the \<^verbatim>\<open>state\<close> column starts as \<^verbatim>\<open>debris\<close>; the two masked assignments
  write \<^verbatim>\<open>live\<close> and \<^verbatim>\<open>inactive\<close>. The source assigns through
  \<^verbatim>\<open>gated_data_df["state"].loc[...]\<close>; the model follows pandas without copy-on-write,
  where this writes into the frame. The \<^verbatim>\<open>dead\<close> and \<^verbatim>\<open>cell\<close> columns are not
  written between the two reads, so each is read once.
\<close>

definition derive_state :: "table \<Rightarrow> error + table" where
  "derive_state df =
     (let debris = replicate (nrows df) ''debris'';
          df1 = set_col ''state'' (StrCol debris) df
      in case get_col df1 ''dead'' of
           Inl e \<Rightarrow> Inl e
         | Inr dead \<Rightarrow>
            (case get_col df1 ''cell'' of
               Inl e \<Rightarrow> Inl e
             | Inr cell \<Rightarrow>
                 let live = map2 (\<and>) (col_eq_bool dead False) (col_eq_bool cell True);
                     state1 = where_set live ''live'' debris;
                     inactive = map2 (\<and>) (col_eq_bool dead True) (col_eq_bool cell True);
                     state2 = where_set inactive ''inactive'' state1
                 in Inr (set_col ''state'' (StrCol state2) df1)))"

text \<open>
  Lines 270-278: the loop over \<^verbatim>\<open>extra_stains.items()\<close>, a dictionary from channel to
  \<^verbatim>\<open>(sign, threshold, label)\<close>, here the list of its items in order. Any sign other than
  \<^verbatim>\<open>">"\<close> compares with \<^verbatim>\<open><\<close>.
\<close>

fun extra_stains_loop ::
  "(string \<times> string \<times> real option \<times> string) list \<Rightarrow> table \<Rightarrow> string list
     \<Rightarrow> error + (table \<times> string list)" where
  "extra_stains_loop [] df all_labels = Inr (df, all_labels)"
| "extra_stains_loop ((channel, sign, threshold, label) # rest) df all_labels =
     (case get_col df channel of
        Inl e \<Rightarrow> Inl e
      | Inr c \<Rightarrow>
         (case (if sign = ''>'' then col_gt c threshold else col_lt c threshold) of
            Inl e \<Rightarrow> Inl e
          | Inr condition \<Rightarrow>
              let df1 = set_col label (BoolCol condition) df
              in case stain_sannity_check df1 label channel sign threshold of
                   Inl e \<Rightarrow> Inl e
                 | Inr _ \<Rightarrow> extra_stains_loop rest df1 (all_labels @ [label])))"

text \<open>
  Lines 212-223: the \<^verbatim>\<open>predictions\<close> column is taken out, the numeric columns are
  transformed, and the column is put back, now as the last one.
\<close>

definition arcsinh_transformed :: "real \<Rightarrow> table \<Rightarrow> table" where
  "arcsinh_transformed cofactor gated_data_df =
     (let predictions_column = map_of (cols gated_data_df) ''predictions'';
          popped = pop_col ''predictions'' gated_data_df;
          transformed = arcsinh_numeric cofactor popped
      in case predictions_column of
           None \<Rightarrow> transformed
         | Some c \<Rightarrow> set_col ''predictions'' c transformed)"

text \<open>
  \<^verbatim>\<open>apply_gating\<close> on the value of the caller's frame: what the function does to its own
  copy, and what it returns. \<open>csv_ok\<close> says whether the write of
  \<^verbatim>\<open>~/Desktop/gated.csv\<close> succeeds in the environment; if not, \<^verbatim>\<open>to_csv\<close> raises
  \<^verbatim>\<open>OSError\<close>.
\<close>

definition apply_gating ::
  "bool \<Rightarrow> table \<Rightarrow> string option \<Rightarrow> string \<Rightarrow> real option
     \<Rightarrow> string option \<Rightarrow> string \<Rightarrow> real option \<Rightarrow> real
     \<Rightarrow> (string \<times> string \<times> real option \<times> string) list option
     \<Rightarrow> error + (table \<times> string list)" where
  "apply_gating csv_ok data_df stain1 stain1_relation stain1_threshold
       stain2 stain2_relation stain2_threshold scaling_constant extra_stains =
     (case primary_stain ''dead'' stain1 stain1_relation stain1_threshold
             (arcsinh_transformed scaling_constant data_df) [] of
        Inl e \<Rightarrow> Inl e
      | Inr (gated1, labels1) \<Rightarrow>
         (case primary_stain ''cell'' stain2 stain2_relation stain2_threshold gated1 labels1 of
            Inl e \<Rightarrow> Inl e
          | Inr (gated2, labels2) \<Rightarrow>
             (case (if truthy_str stain2 \<and> truthy_num stain2_threshold \<and> truthy_str stain1
                    then (case derive_state gated2 of
                            Inl e \<Rightarrow> Inl e
                          | Inr gated3 \<Rightarrow> Inr (gated3, labels2 @ [''state'']))
                    else Inr (gated2, labels2)) of
                Inl e \<Rightarrow> Inl e
              | Inr (gated3, labels3) \<Rightarrow>
                  if \<not> csv_ok then Inl OSError
                  else (case extra_stains of
                          None \<Rightarrow> Inr (gated3, labels3)
                        | Some items \<Rightarrow> extra_stains_loop items gated3 labels3))))"

section \<open>Gating on the caller's store\<close>

text \<open>
  The call as the caller sees it. Frames are objects in a store, addressed by their
  position, and a variable of the source holds an address. Reading \<^verbatim>\<open>v[...]\<close> reads the
  frame at the address of \<^verbatim>\<open>v\<close>; every assignment \<^verbatim>\<open>v[...] = ...\<close>, \<^verbatim>\<open>v.loc[...] = ...\<close>
  or \<^verbatim>\<open>v.pop(...)\<close> writes the frame at the address of \<^verbatim>\<open>v\<close>; \<^verbatim>\<open>v.copy()\<close> allocates a
  new frame with the same content. The functions below repeat \<^verbatim>\<open>apply_gating\<close> statement
  by statement with the address that each statement of the source names, which is the
  local variable \<^verbatim>\<open>gated_data_df\<close> throughout.
\<close>

definition df_copy :: "nat \<Rightarrow> table list \<Rightarrow> nat \<times> table list" where
  "df_copy a store = (length store, store @ [store ! a])"

definition df_write :: "nat \<Rightarrow> (table \<Rightarrow> table) \<Rightarrow> table list \<Rightarrow> table list" where
  "df_write a f store = store[a := f (store ! a)]"

text \<open>Lines 212-223 on the frame at \<open>gated_data_df\<close>.\<close>

definition arcsinh_transformed_in :: "real \<Rightarrow> nat \<Rightarrow> table list \<Rightarrow> table list" where
  "arcsinh_transformed_in cofactor gated_data_df store =
     (let predictions_column = map_of (cols (store ! gated_data_df)) ''predictions'';
          store1 = df_write gated_data_df (pop_col ''predictions'') store;
          store2 = df_write gated_data_df (arcsinh_numeric cofactor) store1
      in case predictions_column of
           None \<Rightarrow> store2
         | Some c \<Rightarrow> df_write gated_data_df (set_col ''predictions'' c) store2)"

text \<open>The block of one primary stain on the frame at \<open>gated_data_df\<close>.\<close>

definition primary_stain_in ::
  "string \<Rightarrow> string option \<Rightarrow> string \<Rightarrow> real option \<Rightarrow> nat \<Rightarrow> string list \<Rightarrow> table list
     \<Rightarrow> (error + string list) \<times> table list" where
  "primary_stain_in label stain relation threshold gated_data_df all_labels store =
     (case stain of
        None \<Rightarrow> (Inr all_labels, store)
      | Some channel \<Rightarrow>
          let init = replicate (nrows (store ! gated_data_df)) False;
              store1 = df_write gated_data_df (set_col label (BoolCol init)) store;
              written =
                (if relation \<in> set [''>'', ''greater_than''] then
                   (case get_col (store1 ! gated_data_df) channel of
                      Inl e \<Rightarrow> Inl e
                    | Inr c \<Rightarrow>
                       (case col_gt c threshold of
                          Inl e \<Rightarrow> Inl e
                        | Inr hits \<Rightarrow>
                            Inr (df_write gated_data_df
                                   (set_col label (BoolCol (where_set hits True init))) store1)))
                 else if relation \<in> set [''<'', ''less_than''] then
                   (case get_col (store1 ! gated_data_df) channel of
                      Inl e \<Rightarrow> Inl e
                    | Inr c \<Rightarrow>
                       (case col_lt c threshold of
                          Inl e \<Rightarrow> Inl e
                        | Inr hits \<Rightarrow>
                            Inr (df_write gated_data_df
                                   (set_col label (BoolCol (where_set hits True init))) store1)))
                 else Inr store1)
          in case written of
               Inl e \<Rightarrow> (Inl e, store1)
             | Inr store2 \<Rightarrow>
                (case stain_sannity_check (store2 ! gated_data_df) label channel relation
                        threshold of
                   Inl e \<Rightarrow> (Inl e, store2)
                 | Inr _ \<Rightarrow> (Inr (all_labels @ [label]), store2)))"

text \<open>Lines 254-262 on the frame at \<open>gated_data_df\<close>: three writes of the state column.\<close>

definition derive_state_in :: "nat \<Rightarrow> table list \<Rightarrow> (error + unit) \<times> table list" where
  "derive_state_in gated_data_df store =
     (let debris = replicate (nrows (store ! gated_data_df)) ''debris'';
          store1 = df_write gated_data_df (set_col ''state'' (StrCol debris)) store
      in case get_col (store1 ! gated_data_df) ''dead'' of
           Inl e \<Rightarrow> (Inl e, store1)
         | Inr dead \<Rightarrow>
            (case get_col (store1 ! gated_data_df) ''cell'' of
               Inl e \<Rightarrow> (Inl e, store1)
             | Inr cell \<Rightarrow>
                 let live = map2 (\<and>) (col_eq_bool dead False) (col_eq_bool cell True);
                     state1 = where_set live ''live'' debris;
                     store2 = df_write gated_data_df (set_col ''state'' (StrCol state1)) store1;
                     inactive = map2 (\<and>) (col_eq_bool dead True) (col_eq_bool cell True);
                     state2 = where_set inactive ''inactive'' state1;
                     store3 = df_write gated_data_df (set_col ''state'' (StrCol state2)) store2
                 in (Inr (), store3)))"

text \<open>Lines 270-278 on the frame at \<open>gated_data_df\<close>.\<close>

fun extra_stains_loop_in ::
  "(string \<times> string \<times> real option \<times> string) list \<Rightarrow> nat \<Rightarrow> string list \<Rightarrow> table list
     \<Rightarrow> (error + string list) \<times> table list" where
  "extra_stains_loop_in [] gated_data_df all_labels store = (Inr all_labels, store)"
| "extra_stains_loop_in ((channel, sign, threshold, label) # rest) gated_data_df all_labels store =
     (case get_col (store ! gated_data_df) channel of
        Inl e \<Rightarrow> (Inl e, store)
      | Inr c \<Rightarrow>
         (case (if sign = ''>'' then col_gt c threshold else col_lt c threshold) of
            Inl e \<Rightarrow> (Inl e, store)
          | Inr condition \<Rightarrow>
              let store1 = df_write gated_data_df (set_col label (BoolCol condition)) store
              in case stain_sannity_check (store1 ! gated_data_df) label channel sign threshold of
                   Inl e \<Rightarrow> (Inl e, store1)
                 | Inr _ \<Rightarrow> extra_stains_loop_in rest gated_data_df (all_labels @ [label]) store1))"

text \<open>
  \<^verbatim>\<open>apply_gating(data_df, ...)\<close> as a call: \<open>data_df\<close> is the address of the caller's frame;
  the result is the returned pair, with the address of the gated frame, or the exception,
  together with the store after the call.
\<close>

definition apply_gating_call ::
  "bool \<Rightarrow> table list \<Rightarrow> nat \<Rightarrow> string option \<Rightarrow> string \<Rightarrow> real option
     \<Rightarrow> string option \<Rightarrow> string \<Rightarrow> real option \<Rightarrow> real
     \<Rightarrow> (string \<times> string \<times> real option \<times> string) list option
     \<Rightarrow> (error + (nat \<times> string list)) \<times> table list" where
  "apply_gating_call csv_ok store data_df stain1 stain1_relation stain1_threshold
       stain2 stain2_relation stain2_threshold scaling_constant extra_stains =
     (let (gated_data_df, store1) = df_copy data_df store;
          store2 = arcsinh_transformed_in scaling_constant gated_data_df store1
      in case primary_stain_in ''dead'' stain1 stain1_relation stain1_threshold
                gated_data_df [] store2 of
           (Inl e, store3) \<Rightarrow> (Inl e, store3)
         | (Inr labels1, store3) \<Rightarrow>
            (case primary_stain_in ''cell'' stain2 stain2_relation stain2_threshold
                    gated_data_df labels1 store3 of
               (Inl e, store4) \<Rightarrow> (Inl e, store4)
             | (Inr labels2, store4) \<Rightarrow>
                (case (if truthy_str stain2 \<and> truthy_num stain2_threshold \<and> truthy_str stain1
                       then (case derive_state_in gated_data_df store4 of
                               (Inl e, store5) \<Rightarrow> (Inl e, store5)
                             | (Inr _, store5) \<Rightarrow> (Inr (labels2 @ [''state'']), store5))
                       else (Inr labels2, store4)) of
                   (Inl e, store5) \<Rightarrow> (Inl e, store5)
                 | (Inr labels3, store5) \<Rightarrow>
                     if \<not> csv_ok then (Inl OSError, store5)
                     else (case extra_stains of
                             None \<Rightarrow> (Inr (gated_data_df, labels3), store5)
                           | Some items \<Rightarrow>
                              (case extra_stains_loop_in items gated_data_df labels3 store5 of
                                 (Inl e, store6) \<Rightarrow> (Inl e, store6)
                               | (Inr labels4, store6) \<Rightarrow>
                                   (Inr (gated_data_df, labels4), store6))))))"

text \<open>
  What it means that a statement sequence on the store, run at the address \<open>g\<close>, does what
  a function on the value of a frame does: the other frames keep their content, the
  outcome is the same, and on success the frame at \<open>g\<close> holds the function's frame.
\<close>

definition runs_as ::
  "nat \<Rightarrow> table list \<Rightarrow> (error + 'r) \<times> table list \<Rightarrow> error + (table \<times> 'r) \<Rightarrow> bool" where
  "runs_as g store res pure \<longleftrightarrow>
     length (snd res) = length store \<and> (\<forall>b. b \<noteq> g \<longrightarrow> snd res ! b = store ! b)
     \<and> (case pure of
          Inl e \<Rightarrow> fst res = Inl e
        | Inr (t, r) \<Rightarrow> fst res = Inr r \<and> snd res ! g = t)"

text \<open>
  The part of \<^verbatim>\<open>save_gating_results\<close> that acts on the label list (lines 367-369):
  the frame must have a \<^verbatim>\<open>predictions\<close> column, and when \<^verbatim>\<open>state\<close> is among the labels,
  \<^verbatim>\<open>dead\<close> and \<^verbatim>\<open>cell\<close> are removed from the list in place. \<^verbatim>\<open>list.remove\<close> deletes
  the first occurrence and raises \<^verbatim>\<open>ValueError\<close> when there is none. The counting and the
  plot that follow only read the list. The result is the list as the caller sees it
  after the call.
\<close>

fun list_remove :: "string \<Rightarrow> string list \<Rightarrow> error + string list" where
  "list_remove x [] = Inl (ValueError ''list.remove(x): x not in list'')"
| "list_remove x (y # ys) =
     (if y = x then Inr ys
      else case list_remove x ys of Inl e \<Rightarrow> Inl e | Inr zs \<Rightarrow> Inr (y # zs))"

definition save_gating_results :: "table \<Rightarrow> string list \<Rightarrow> error + string list" where
  "save_gating_results gated_data_df all_labels =
     (case get_col gated_data_df ''predictions'' of
        Inl e \<Rightarrow> Inl e
      | Inr _ \<Rightarrow>
          if ''state'' \<in> set all_labels then
            (case list_remove ''dead'' all_labels of
               Inl e \<Rightarrow> Inl e
             | Inr labels1 \<Rightarrow> list_remove ''cell'' labels1)
          else Inr all_labels)"

section \<open>Prediction\<close>

text \<open>
  \<^verbatim>\<open>np.argmax\<close> of one row of probabilities: the first position of the largest value;
  an empty row raises \<^verbatim>\<open>ValueError\<close>.
\<close>

fun argmax_from :: "nat \<Rightarrow> nat \<Rightarrow> real \<Rightarrow> real list \<Rightarrow> nat" where
  "argmax_from i best v [] = best"
| "argmax_from i best v (x # xs) =
     (if x > v then argmax_from (Suc i) i x xs else argmax_from (Suc i) best v xs)"

fun argmax :: "real list \<Rightarrow> error + nat" where
  "argmax [] = Inl (ValueError ''attempt to get argmax of an empty sequence'')"
| "argmax (x # xs) = Inr (argmax_from 1 0 x xs)"

fun argmax_rows :: "real list list \<Rightarrow> error + nat list" where
  "argmax_rows [] = Inr []"
| "argmax_rows (r # rs) =
     (case argmax r of
        Inl e \<Rightarrow> Inl e
      | Inr i \<Rightarrow> (case argmax_rows rs of Inl e \<Rightarrow> Inl e | Inr js \<Rightarrow> Inr (i # js)))"

text \<open>
  The entropy of every row; a row whose entropy is not finite leaves the model.
\<close>

fun entropy_rows :: "real list list \<Rightarrow> error + real list" where
  "entropy_rows [] = Inr []"
| "entropy_rows (r # rs) =
     (case entropy r of
        None \<Rightarrow> Inl NonFinite
      | Some u \<Rightarrow> (case entropy_rows rs of Inl e \<Rightarrow> Inl e | Inr us \<Rightarrow> Inr (u # us)))"

text \<open>
  \<^verbatim>\<open>select_dtypes(include=[np.number])\<close> as a list of columns, and the rows of such a
  list of columns.
\<close>

fun numeric_of :: "column \<Rightarrow> real list option" where
  "numeric_of (NumCol xs) = Some xs"
| "numeric_of (StrCol xs) = None"
| "numeric_of (BoolCol bs) = None"

definition numeric_columns :: "table \<Rightarrow> real list list" where
  "numeric_columns df = List.map_filter (\<lambda>p. numeric_of (snd p)) (cols df)"

definition rows_of :: "nat \<Rightarrow> real list list \<Rightarrow> real list list" where
  "rows_of n cs = map (\<lambda>i. map (\<lambda>c. c ! i) cs) [0..<n]"

text \<open>
  \<^verbatim>\<open>predict_species\<close>. The scaler and the classifier are pre-trained artifacts and enter as
  functions from a matrix (a list of rows) to a matrix, which may raise.
  \<open>classes\<close> is \<^verbatim>\<open>label_encoder.classes_\<close>. The result is the triple of the source: class
  indices, uncertainties and the dictionary from index to species name.
\<close>

definition predict_species ::
  "table \<Rightarrow> (real list list \<Rightarrow> error + real list list)
     \<Rightarrow> (real list list \<Rightarrow> error + real list list) \<Rightarrow> string list \<Rightarrow> real
     \<Rightarrow> error + (nat list \<times> real list \<times> (nat \<times> string) list)" where
  "predict_species data_df model scaler classes scaling_constant =
     (let data_df_arcsinh = arcsinh_numeric scaling_constant data_df
      in case scaler (rows_of (nrows data_df_arcsinh) (numeric_columns data_df_arcsinh)) of
           Inl e \<Rightarrow> Inl e
         | Inr X_co_scaled \<Rightarrow>
            (case model X_co_scaled of
               Inl e \<Rightarrow> Inl e
             | Inr predictions \<Rightarrow>
                (case argmax_rows predictions of
                   Inl e \<Rightarrow> Inl e
                 | Inr predicted_classes \<Rightarrow>
                    (case entropy_rows predictions of
                       Inl e \<Rightarrow> Inl e
                     | Inr uncertainties \<Rightarrow>
                         Inr (predicted_classes, uncertainties, enumerate 0 classes)))))"

text \<open>
  The configuration of \<^verbatim>\<open>predict\<close> when it is called with keyword arguments (the branch
  of lines 62-81; the other branch reads the same values from the widgets of the
  graphical interface). A stain is given by its channel, sign and value.
\<close>

record stain =
  stain_channel :: "string option"
  stain_sign :: string
  stain_value :: "real option"

record kwargs =
  kw_model :: "real list list \<Rightarrow> error + real list list"
  kw_scaler :: "real list list \<Rightarrow> error + real list list"
  kw_label_encoder :: "string list"
  kw_data_df :: table
  kw_gating :: bool
  kw_scaling_constant :: real
  kw_filter_out_uncertain :: bool
  kw_uncertainty_threshold :: real
  kw_stain1 :: stain
  kw_stain2 :: stain
  kw_extra_stains :: "(string \<times> string \<times> real option \<times> string) list option"

text \<open>
  What the environment decides: whether the three places that write files and draw plots
  return (\<^verbatim>\<open>save_prediction_results\<close>, the write of \<^verbatim>\<open>gated.csv\<close> inside
  \<^verbatim>\<open>apply_gating\<close>, the output part of \<^verbatim>\<open>save_gating_results\<close>).
\<close>

record env =
  env_predictions_saved :: bool
  env_csv_ok :: bool
  env_gating_saved :: bool

text \<open>
  The outcome of \<^verbatim>\<open>predict\<close> at its call of \<^verbatim>\<open>run_heterogeneity\<close>: the frame
  \<^verbatim>\<open>data_df_pred\<close>, which the function returns afterwards, and the frame \<^verbatim>\<open>hetero_df\<close>
  that is passed to \<^verbatim>\<open>run_heterogeneity\<close>.
\<close>

record outcome =
  data_df_pred :: table
  hetero_df :: table

text \<open>\<^verbatim>\<open>index_to_species.get\<close>; a missing index gives Python's \<^verbatim>\<open>None\<close>.\<close>

definition species_name :: "(nat \<times> string) list \<Rightarrow> nat \<Rightarrow> string" where
  "species_name index_to_species i =
     (case map_of index_to_species i of None \<Rightarrow> ''None'' | Some name \<Rightarrow> name)"

text \<open>
  Lines 103-124: the copy of the input without its \<^verbatim>\<open>Time\<close> column receives the columns
  \<^verbatim>\<open>predictions\<close> and \<^verbatim>\<open>uncertainties\<close>; with filtering enabled, the rows whose
  uncertainty exceeds the threshold are relabelled \<^verbatim>\<open>Unknown\<close>. \<^verbatim>\<open>np.vectorize\<close> raises
  on an empty input, and a column of the wrong length cannot be assigned. The mask of
  line 124 reads the two columns that were just written.
\<close>

definition prediction_frame ::
  "table \<Rightarrow> nat list \<Rightarrow> real list \<Rightarrow> (nat \<times> string) list \<Rightarrow> bool \<Rightarrow> real \<Rightarrow> error + table" where
  "prediction_frame df predicted_classes uncertainties index_to_species filtering threshold =
     (let dropped = (if ''Time'' \<in> fst ` set (cols df) then pop_col ''Time'' df else df)
      in if predicted_classes = [] then
           Inl (ValueError ''cannot call vectorize on size 0 inputs unless otypes is set'')
         else if length predicted_classes \<noteq> nrows df \<or> length uncertainties \<noteq> nrows df then
           Inl (ValueError ''Length of values does not match length of index'')
         else
           let mapped_predictions = map (species_name index_to_species) predicted_classes;
               with_predictions = set_col ''predictions'' (StrCol mapped_predictions) dropped;
               with_uncertainties =
                 set_col ''uncertainties'' (NumCol uncertainties) with_predictions
           in if filtering then
                Inr (set_col ''predictions''
                       (StrCol (where_set (map (\<lambda>u. u > threshold) uncertainties) ''Unknown''
                                  mapped_predictions))
                       with_uncertainties)
              else Inr with_uncertainties)"

text \<open>
  \<^verbatim>\<open>predict\<close>, from the threshold check to the call of \<^verbatim>\<open>run_heterogeneity\<close>.
\<close>

definition predict :: "env \<Rightarrow> kwargs \<Rightarrow> error + outcome" where
  "predict environment kw =
     (case (if kw_filter_out_uncertain kw
            then get_uncertainty_threshold (length (kw_label_encoder kw)) (kw_uncertainty_threshold kw)
            else Inr (kw_uncertainty_threshold kw)) of
        Inl e \<Rightarrow> Inl e
      | Inr threshold \<Rightarrow>
         (case predict_species (kw_data_df kw) (kw_model kw) (kw_scaler kw) (kw_label_encoder kw)
                 (kw_scaling_constant kw) of
            Inl e \<Rightarrow> Inl e
          | Inr (predicted_classes, uncertainties, index_to_species) \<Rightarrow>
             (case prediction_frame (kw_data_df kw) predicted_classes uncertainties index_to_species
                     (kw_filter_out_uncertain kw) threshold of
                Inl e \<Rightarrow> Inl e
              | Inr pred \<Rightarrow>
                  if \<not> env_predictions_saved environment then Inl OSError
                  else if kw_gating kw then
                    (case apply_gating (env_csv_ok environment) pred
                            (stain_channel (kw_stain1 kw)) (stain_sign (kw_stain1 kw))
                            (stain_value (kw_stain1 kw))
                            (stain_channel (kw_stain2 kw)) (stain_sign (kw_stain2 kw))
                            (stain_value (kw_stain2 kw))
                            (kw_scaling_constant kw) (kw_extra_stains kw) of
                       Inl e \<Rightarrow> Inl e
                     | Inr (gating_df, all_labels) \<Rightarrow>
                        (case save_gating_results gating_df all_labels of
                           Inl e \<Rightarrow> Inl e
                         | Inr all_labels1 \<Rightarrow>
                             if \<not> env_gating_saved environment then Inl OSError
                             else if ''state'' \<in> set all_labels1 then
                               (case get_col gating_df ''state'' of
                                  Inl e \<Rightarrow> Inl e
                                | Inr state \<Rightarrow>
                                    Inr \<lparr>data_df_pred = pred,
                                         hetero_df =
                                           select_rows (col_eq_str state ''live'') gating_df\<rparr>)
                             else Inr \<lparr>data_df_pred = pred, hetero_df = gating_df\<rparr>))
                  else Inr \<lparr>data_df_pred = pred, hetero_df = pred\<rparr>)))"

text \<open>The label of one item of \<^verbatim>\<open>extra_stains\<close>.\<close>

fun extra_label :: "string \<times> string \<times> real option \<times> string \<Rightarrow> string" where
  "extra_label (channel, sign, threshold, label) = label"

text \<open>
  The truth table of the specification for the state of a row, from its \<^verbatim>\<open>dead\<close> and
  \<^verbatim>\<open>cell\<close> values; the state that the code derives is compared with it below.
\<close>

definition spec_state :: "bool \<Rightarrow> bool \<Rightarrow> string" where
  "spec_state d c = (if c then (if d then ''inactive'' else ''live'') else ''debris'')"




definition ex_table :: table where
  "ex_table = \<lparr>nrows = 2, cols = [(''viability'', NumCol [- 1, 1]), (''marker'', NumCol [450, 0]),
       (''predictions'', StrCol [''A'', ''B''])]\<rparr>"

text \<open>
  The words of the specification about a vector of class probabilities: a valid
  distribution, a one-hot vector, the uniform vector.
\<close>

definition valid_distribution :: "real list \<Rightarrow> bool" where
  "valid_distribution pk \<longleftrightarrow> (\<forall>p \<in> set pk. 0 \<le> p) \<and> sum_list pk = 1"

definition one_hot :: "real list \<Rightarrow> bool" where
  "one_hot pk \<longleftrightarrow>
     (\<exists>i < length pk. pk ! i = 1 \<and> (\<forall>j < length pk. j \<noteq> i \<longrightarrow> pk ! j = 0))"

definition uniform :: "real list \<Rightarrow> bool" where
  "uniform pk \<longleftrightarrow> (\<forall>p \<in> set pk. p = 1 / real (length pk))"

text \<open>
  A run of \<^verbatim>\<open>predict\<close>: two cells, a classifier that is sure of the first and undecided
  on the second, the automatic threshold, and both primary stains.
\<close>

definition raw_table :: table where
  "raw_table = \<lparr>nrows = 2, cols = [(''viability'', NumCol [- 1, 1]), (''marker'', NumCol [450, 0])]\<rparr>"

definition ex_kwargs :: kwargs where
  "ex_kwargs =
     \<lparr>kw_model = (\<lambda>X. Inr [[0, 1], [1 / 2, 1 / 2]]), kw_scaler = (\<lambda>X. Inr X),
      kw_label_encoder = [''A'', ''B''], kw_data_df = raw_table, kw_gating = True,
      kw_scaling_constant = 150, kw_filter_out_uncertain = True, kw_uncertainty_threshold = - 1,
      kw_stain1 = \<lparr>stain_channel = Some ''viability'', stain_sign = ''>'', stain_value = Some 0\<rparr>,
      kw_stain2 = \<lparr>stain_channel = Some ''marker'', stain_sign = ''>'', stain_value = Some 1\<rparr>,
      kw_extra_stains = None\<rparr>"

definition ex_env :: env where
  "ex_env = \<lparr>env_predictions_saved = True, env_csv_ok = True, env_gating_saved = True\<rparr>"

definition ex_pred :: table where
  "ex_pred =
     \<lparr>nrows = 2, cols = [(''viability'', NumCol [- 1, 1]), (''marker'', NumCol [450, 0]),
        (''predictions'', StrCol [''B'', ''Unknown'']), (''uncertainties'', NumCol [0, ln 2])]\<rparr>"

definition ex_gating_df :: table where
  "ex_gating_df =
     \<lparr>nrows = 2, cols = [(''viability'', NumCol [- arsinh (1 / 150), arsinh (1 / 150)]),
        (''marker'', NumCol [arsinh 3, 0]),
        (''uncertainties'', NumCol [0, arsinh (ln 2 / 150)]),
        (''predictions'', StrCol [''B'', ''Unknown'']),
        (''dead'', BoolCol [False, True]), (''cell'', BoolCol [True, False]),
        (''state'', StrCol [''live'', ''debris''])]\<rparr>"

definition ex_hetero_df :: table where
  "ex_hetero_df =
     \<lparr>nrows = 1, cols = [(''viability'', NumCol [- arsinh (1 / 150)]),
        (''marker'', NumCol [arsinh 3]), (''uncertainties'', NumCol [0]),
        (''predictions'', StrCol [''B'']),
        (''dead'', BoolCol [False]), (''cell'', BoolCol [True]),
        (''state'', StrCol [''live''])]\<rparr>"

section \<open>Properties\<close>

subsection \<open>Simple heterogeneity\<close>

lemma fold_max_Max: "fold max xs (x::real) = Max (set (x # xs))"
  by (simp only: Max.set_eq_fold)

lemma fold_min_Min: "fold min xs (x::real) = Min (set (x # xs))"
  by (simp only: Min.set_eq_fold)

lemma ptp_range: "c \<noteq> [] \<Longrightarrow> ptp c = Some (Max (set c) - Min (set c))"
proof (cases c)
  case Nil
  assume "c \<noteq> []"
  with Nil show ?thesis by simp
next
  case (Cons x xs)
  have "ptp c = Some (fold max xs x - fold min xs x)" using Cons by simp
  also have "\<dots> = Some (Max (set c) - Min (set c))"
    unfolding fold_max_Max fold_min_Min Cons ..
  finally show ?thesis .
qed

lemma map_ptp:
  "[] \<notin> set data \<Longrightarrow>
   map (\<lambda>c. the (ptp c)) data = map (\<lambda>c. Max (set c) - Min (set c)) data"
  by (induction data) (auto simp: ptp_range)

text \<open>
  Claim C7. For a feature table with at least one column and at least one row, the simple
  heterogeneity is the mean over the columns of each column's range, maximum minus
  minimum; for the single column 1, 5, 9 it is 8.
\<close>

theorem hetero_simple_mean_range:
  "(data \<noteq> [] \<and> [] \<notin> set data \<longrightarrow>
      hetero_simple data =
        Some ((\<Sum>c\<leftarrow>data. Max (set c) - Min (set c)) / real (length data)))
   \<and> hetero_simple [[1, 5, 9]] = Some 8"
proof
  show "data \<noteq> [] \<and> [] \<notin> set data \<longrightarrow>
      hetero_simple data =
        Some ((\<Sum>c\<leftarrow>data. Max (set c) - Min (set c)) / real (length data))"
    by (simp add: hetero_simple_def mean_def map_ptp)
  show "hetero_simple [[1, 5, 9]] = Some 8"
    by (simp add: hetero_simple_def mean_def)
qed

theorem hetero_simple_mean_range_witness:
  "hetero_simple [[1, 5, 9], [2, 2, 4]] = Some 5"
  using hetero_simple_mean_range [of "[[1, 5, 9], [2, 2, 4]]"] by simp

subsection \<open>The uncertainty threshold\<close>

lemma get_uncertainty_threshold_unfold:
  "1 \<le> K \<Longrightarrow> m = ln (real K) \<Longrightarrow>
   get_uncertainty_threshold K t =
     (if (t < 0 \<and> t \<noteq> - 1) \<or> t > m
      then Inl (ValueError ''Uncertainty threshold must be between 0 and 1.'')
      else if t = - 1 then Inr (0.5 * m) else Inr t)"
  by (simp add: get_uncertainty_threshold_def Let_def)

text \<open>
  Claim C2. With filtering enabled and \<open>K \<ge> 1\<close> known species, the threshold check fails
  exactly when the raw threshold is outside \<open>[0, ln K]\<close> and is not the sentinel \<open>-1\<close>;
  a threshold inside the range is accepted as it is, and the sentinel is accepted.
\<close>

theorem threshold_error_iff:
  "1 \<le> K \<Longrightarrow>
   ((\<exists>e. get_uncertainty_threshold K t = Inl e) \<longleftrightarrow>
      (\<not> (0 \<le> t \<and> t \<le> ln (real K)) \<and> t \<noteq> - 1))
   \<and> (0 \<le> t \<and> t \<le> ln (real K) \<longrightarrow> get_uncertainty_threshold K t = Inr t)
   \<and> (t = - 1 \<longrightarrow> (\<exists>v. get_uncertainty_threshold K t = Inr v))"
proof -
  assume K: "1 \<le> K"
  define m where "m = ln (real K)"
  have m: "0 \<le> m" using K by (simp add: m_def)
  have "t = - 1 \<longrightarrow> (\<exists>v. (Inr (0.5 * m) :: error + real) = Inr v)"
    by blast
  then show ?thesis
    unfolding get_uncertainty_threshold_unfold [OF K m_def] m_def [symmetric]
    using m by auto
qed

theorem threshold_error_iff_witness:
  "(1::nat) \<le> 2 \<and> (\<exists>e. get_uncertainty_threshold 2 (- 2) = Inl e)
   \<and> get_uncertainty_threshold 2 0 = Inr 0"
  using threshold_error_iff [of 2 "- 2"] threshold_error_iff [of 2 0] by simp

text \<open>
  Claim C5. With filtering enabled, the sentinel \<open>-1\<close> and \<open>K \<ge> 1\<close> classes in the label
  encoder, the threshold used for filtering is \<open>0.5 * ln K\<close>.
\<close>

theorem auto_threshold:
  "1 \<le> K \<Longrightarrow> get_uncertainty_threshold K (- 1) = Inr (0.5 * ln (real K))"
proof -
  assume K: "1 \<le> K"
  define m where "m = ln (real K)"
  have m: "0 \<le> m" using K by (simp add: m_def)
  show ?thesis
    unfolding get_uncertainty_threshold_unfold [OF K m_def] m_def [symmetric]
    using m by auto
qed

theorem auto_threshold_witness:
  "(1::nat) \<le> 2 \<and> get_uncertainty_threshold 2 (- 1) = Inr (0.5 * ln (real 2))"
  using auto_threshold [of 2] by simp

subsection \<open>Frames\<close>

lemma map_of_set_col_list: "map_of (set_col_list n c ps) = (map_of ps)(n \<mapsto> c)"
  by (induction ps) (auto simp: fun_eq_iff)

lemma get_col_set_col:
  "get_col (set_col n c df) m = (if m = n then Inr c else get_col df m)"
  by (simp add: get_col_def set_col_def map_of_set_col_list)

lemma nrows_set_col: "nrows (set_col n c df) = nrows df"
  by (simp add: set_col_def)

lemma set_col_list_twice: "set_col_list n c (set_col_list n d ps) = set_col_list n c ps"
  by (induction ps) auto

lemma set_col_twice: "set_col n c (set_col n d df) = set_col n c df"
  by (simp add: set_col_def set_col_list_twice)

lemma where_set_True:
  "length hits = n \<Longrightarrow> where_set hits True (replicate n False) = hits"
  by (auto simp: where_set_def intro!: nth_equalityI)

lemma length_where_set: "length (where_set hits v xs) = min (length hits) (length xs)"
  by (simp add: where_set_def)

lemma nth_where_set:
  "i < length hits \<Longrightarrow> i < length xs \<Longrightarrow>
   where_set hits v xs ! i = (if hits ! i then v else xs ! i)"
  by (simp add: where_set_def)

lemma length_col_gt: "col_gt c t = Inr hits \<Longrightarrow> length hits = col_len c"
  by (cases c; cases t) (auto split: if_splits)

lemma length_col_lt: "col_lt c t = Inr hits \<Longrightarrow> length hits = col_len c"
  by (cases c; cases t) (auto split: if_splits)

lemma get_col_len: "wf_table df \<Longrightarrow> get_col df n = Inr c \<Longrightarrow> col_len c = nrows df"
  by (auto simp: wf_table_def get_col_def split: option.splits dest!: map_of_SomeD)

lemma set_set_col_list:
  "set (set_col_list n c ps) \<subseteq> insert (n, c) (set ps)"
  by (induction ps) auto

lemma fst_set_col_list:
  "map fst (set_col_list n c ps) = (if n \<in> fst ` set ps then map fst ps else map fst ps @ [n])"
  by (induction ps) auto

lemma wf_set_col: "wf_table df \<Longrightarrow> col_len c = nrows df \<Longrightarrow> wf_table (set_col n c df)"
  using set_set_col_list [of n c "cols df"]
  by (auto simp: wf_table_def set_col_def fst_set_col_list)

lemma primary_stain_None: "primary_stain label None rel thr df ls = Inr (df, ls)"
  by (simp add: primary_stain_def)

lemma sanity_bool:
  "get_col df label = Inr (BoolCol bs) \<Longrightarrow>
   stain_sannity_check df label channel sign thr =
     (if True \<in> set bs \<and> False \<in> set bs then Inr ()
      else case get_col df channel of Inl e \<Rightarrow> Inl e
           | Inr c \<Rightarrow> Inl (GatingError channel (col_min c) (col_max c) sign thr))"
  by (auto simp: stain_sannity_check_def)

lemma primary_stain_Inr:
  assumes "primary_stain label stain rel thr df ls = Inr (df', ls')" and "wf_table df"
  shows "(stain = None \<and> df' = df \<and> ls' = ls) \<or>
         (\<exists>bs. stain \<noteq> None \<and> df' = set_col label (BoolCol bs) df \<and> ls' = ls @ [label]
               \<and> True \<in> set bs \<and> False \<in> set bs \<and> length bs = nrows df)"
proof (cases stain)
  case None
  with assms show ?thesis by (simp add: primary_stain_def)
next
  case (Some ch)
  define init where "init = replicate (nrows df) False"
  define df1 where "df1 = set_col label (BoolCol init) df"
  have wf1: "wf_table df1" unfolding df1_def using assms(2) by (simp add: wf_set_col init_def)
  have n1: "nrows df1 = nrows df" by (simp add: df1_def nrows_set_col)
  define written where "written =
                (if rel \<in> set [''>'', ''greater_than''] then
                   (case get_col df1 ch of
                      Inl e \<Rightarrow> Inl e
                    | Inr c \<Rightarrow>
                       (case col_gt c thr of
                          Inl e \<Rightarrow> Inl e
                        | Inr hits \<Rightarrow> Inr (set_col label (BoolCol (where_set hits True init)) df1)))
                 else if rel \<in> set [''<'', ''less_than''] then
                   (case get_col df1 ch of
                      Inl e \<Rightarrow> Inl e
                    | Inr c \<Rightarrow>
                       (case col_lt c thr of
                          Inl e \<Rightarrow> Inl e
                        | Inr hits \<Rightarrow> Inr (set_col label (BoolCol (where_set hits True init)) df1)))
                 else Inr df1)"
  have eq: "primary_stain label stain rel thr df ls =
     (case written of Inl e \<Rightarrow> Inl e
      | Inr df2 \<Rightarrow> (case stain_sannity_check df2 label ch rel thr of
                   Inl e \<Rightarrow> Inl e
                 | Inr _ \<Rightarrow> Inr (df2, ls @ [label])))"
    unfolding primary_stain_def Some written_def df1_def init_def by (simp add: Let_def)
  have w: "\<exists>bs. d = set_col label (BoolCol bs) df \<and> length bs = nrows df"
    if "written = Inr d" for d
  proof -
    have init: "length init = nrows df" by (simp add: init_def)
    have hit: "set_col label (BoolCol (where_set hits True init)) df1 = set_col label (BoolCol hits) df
               \<and> length hits = nrows df"
      if "get_col df1 ch = Inr c" and "col_gt c thr = Inr hits \<or> col_lt c thr = Inr hits"
      for c hits
    proof -
      have "col_len c = nrows df" using get_col_len [OF wf1 that(1)] n1 by simp
      then have l: "length hits = nrows df"
        using that(2) length_col_gt length_col_lt by metis
      then have "where_set hits True init = hits"
        unfolding init_def by (rule where_set_True)
      then show ?thesis using l by (simp add: df1_def set_col_twice)
    qed
    from that show ?thesis
      unfolding written_def
      by (auto split: if_splits sum.splits simp: hit) (auto simp: df1_def init)
  qed
  from assms(1) obtain d where d: "written = Inr d" and
    chk: "stain_sannity_check d label ch rel thr = Inr ()" and res: "df' = d" "ls' = ls @ [label]"
    unfolding eq by (auto split: sum.splits)
  from w [OF d] obtain bs where bs: "d = set_col label (BoolCol bs) df" "length bs = nrows df"
    by blast
  have "get_col d label = Inr (BoolCol bs)" by (simp add: bs get_col_set_col)
  from sanity_bool [OF this, of ch rel thr] chk
  have "True \<in> set bs \<and> False \<in> set bs" by (auto split: if_splits sum.splits)
  with bs res Some show ?thesis by auto
qed


lemma col_len_arcsinh_column: "col_len (arcsinh_column k c) = col_len c"
  by (cases c) simp_all

lemma wf_pop_col: "wf_table df \<Longrightarrow> wf_table (pop_col n df)"
  by (auto simp: wf_table_def pop_col_def distinct_map_filter)

lemma wf_arcsinh_numeric: "wf_table df \<Longrightarrow> wf_table (arcsinh_numeric k df)"
  by (auto simp: wf_table_def arcsinh_numeric_def col_len_arcsinh_column comp_def)

lemma nrows_arcsinh_transformed: "nrows (arcsinh_transformed k df) = nrows df"
  by (simp add: arcsinh_transformed_def Let_def set_col_def pop_col_def arcsinh_numeric_def
      split: option.splits)

lemma wf_arcsinh_transformed:
  assumes "wf_table df" shows "wf_table (arcsinh_transformed k df)"
proof (cases "map_of (cols df) ''predictions''")
  case None
  then show ?thesis
    using assms by (simp add: arcsinh_transformed_def wf_pop_col wf_arcsinh_numeric)
next
  case (Some c)
  then have "col_len c = nrows df"
    using assms by (auto simp: wf_table_def dest!: map_of_SomeD)
  then have "col_len c = nrows (arcsinh_numeric k (pop_col ''predictions'' df))"
    by (simp add: arcsinh_numeric_def pop_col_def)
  then show ?thesis
    using assms Some
    by (simp add: arcsinh_transformed_def wf_pop_col wf_arcsinh_numeric wf_set_col)
qed

lemma derive_state_bool:
  assumes "get_col df ''dead'' = Inr (BoolCol dead)" and "get_col df ''cell'' = Inr (BoolCol cell)"
    and "length dead = nrows df" and "length cell = nrows df"
  shows "derive_state df =
     Inr (set_col ''state''
            (StrCol (map2 (\<lambda>d c. if c then (if d then ''inactive'' else ''live'') else ''debris'')
                       dead cell)) df)"
proof -
  have "where_set (map2 (\<and>) (map (\<lambda>x. x = True) dead) (map (\<lambda>x. x = True) cell)) ''inactive''
          (where_set (map2 (\<and>) (map (\<lambda>x. x = False) dead) (map (\<lambda>x. x = True) cell)) ''live''
             (replicate (nrows df) ''debris''))
        = map2 (\<lambda>d c. if c then (if d then ''inactive'' else ''live'') else ''debris'') dead cell"
    using assms(3,4) by (auto simp: where_set_def intro!: nth_equalityI)
  then show ?thesis
    using assms(1,2)
    by (simp add: derive_state_def Let_def get_col_set_col set_col_twice)
qed

lemma extra_stains_loop_labels:
  "extra_stains_loop items df ls = Inr (df', ls') \<Longrightarrow> ls' = ls @ map extra_label items"
  by (induction items df ls rule: extra_stains_loop.induct)
     (auto split: sum.splits if_splits simp: Let_def)

lemma extra_stains_loop_frame:
  "extra_stains_loop items df ls = Inr (df', ls') \<Longrightarrow> n \<notin> extra_label ` set items \<Longrightarrow>
   get_col df' n = get_col df n \<and> nrows df' = nrows df"
  by (induction items df ls rule: extra_stains_loop.induct)
     (auto split: sum.splits if_splits simp: Let_def get_col_set_col nrows_set_col)



lemma apply_gating_both:
  assumes wf: "wf_table data_df"
    and t: "truthy_str stain1" "truthy_str stain2" "truthy_num t2"
    and ok: "apply_gating csv data_df stain1 r1 t1 stain2 r2 t2 k extras = Inr (gated, labels)"
  obtains dead cell where "length dead = nrows data_df" "length cell = nrows data_df"
     "True \<in> set dead" "False \<in> set dead" "True \<in> set cell" "False \<in> set cell" 
     "csv"
     "(case extras of None \<Rightarrow> Inr
                (set_col ''state'' (StrCol (map2 spec_state dead cell))
                  (set_col ''cell'' (BoolCol cell)
                    (set_col ''dead'' (BoolCol dead) (arcsinh_transformed k data_df))),
                 [''dead'', ''cell'', ''state''])
              | Some items \<Rightarrow> extra_stains_loop items
                (set_col ''state'' (StrCol (map2 spec_state dead cell))
                  (set_col ''cell'' (BoolCol cell)
                    (set_col ''dead'' (BoolCol dead) (arcsinh_transformed k data_df))))
                 [''dead'', ''cell'', ''state'']) = Inr (gated, labels)"
proof -
  define G where "G = arcsinh_transformed k data_df"
  have wfG: "wf_table G" and nG: "nrows G = nrows data_df"
    by (simp_all add: G_def wf_arcsinh_transformed wf nrows_arcsinh_transformed)
  from ok obtain g1 l1 where p1: "primary_stain ''dead'' stain1 r1 t1 G [] = Inr (g1, l1)"
    unfolding apply_gating_def G_def by (auto split: sum.splits)
  from ok p1 obtain g2 l2 where p2: "primary_stain ''cell'' stain2 r2 t2 g1 l1 = Inr (g2, l2)"
    unfolding apply_gating_def G_def by (auto split: sum.splits)
  from t(1) have s1: "stain1 \<noteq> None" by (cases stain1) auto
  from t(2) have s2: "stain2 \<noteq> None" by (cases stain2) auto
  from primary_stain_Inr [OF p1 wfG] s1 obtain dead where
    d: "g1 = set_col ''dead'' (BoolCol dead) G" "l1 = [''dead'']" "True \<in> set dead"
       "False \<in> set dead" "length dead = nrows data_df"
    using nG by auto
  have wf1: "wf_table g1" unfolding d(1) using wfG d(5) nG by (simp add: wf_set_col)
  have n1: "nrows g1 = nrows data_df" by (simp add: d(1) nrows_set_col nG)
  from primary_stain_Inr [OF p2 wf1] s2 obtain cell where
    c: "g2 = set_col ''cell'' (BoolCol cell) g1" "l2 = [''dead'', ''cell'']" "True \<in> set cell"
       "False \<in> set cell" "length cell = nrows data_df"
    using n1 d(2) by auto
  have n2: "nrows g2 = nrows data_df" by (simp add: c(1) nrows_set_col n1)
  have "get_col g2 ''dead'' = Inr (BoolCol dead)" "get_col g2 ''cell'' = Inr (BoolCol cell)"
    by (simp_all add: c(1) d(1) get_col_set_col)
  from derive_state_bool [OF this] d(5) c(5) n2
  have ds: "derive_state g2 = Inr (set_col ''state'' (StrCol (map2 spec_state dead cell)) g2)"
    by (simp add: spec_state_def [abs_def])
  from ok have "csv \<and> (case extras of None \<Rightarrow> Inr
                (set_col ''state'' (StrCol (map2 spec_state dead cell)) g2,
                 [''dead'', ''cell'', ''state''])
              | Some items \<Rightarrow> extra_stains_loop items
                (set_col ''state'' (StrCol (map2 spec_state dead cell)) g2)
                 [''dead'', ''cell'', ''state'']) = Inr (gated, labels)"
    unfolding apply_gating_def G_def [symmetric]
    by (simp add: p1 p2 t ds c(2) split: if_splits cong: option.case_cong)
  then show ?thesis
    unfolding c(1) d(1) G_def
    using that [of dead cell] d(3,4,5) c(3,4,5) by blast
qed

subsection \<open>The sanity check of a gate\<close>


lemma less_arsinh_iff_sinh: "t < arsinh x \<longleftrightarrow> sinh (t::real) < x"
  using arsinh_less_iff_real [of "sinh t" x] by (simp only: arsinh_sinh_real)

lemma sinh_1_less_3: "sinh (1::real) < 3"
proof -
  have a: "exp (1::real) \<le> 3" by (rule exp_le)
  have b: "0 < exp (- 1 :: real)" by simp
  from a b have "exp 1 - exp (- 1 :: real) < 4" by linarith
  then have "(exp 1 - exp (- 1 :: real)) / 2 < 3" by simp
  then show ?thesis by (simp only: sinh_field_def)
qed





lemmas gating_defs = apply_gating_def arcsinh_transformed_def pop_col_def arcsinh_numeric_def
      set_col_def primary_stain_def get_col_def where_set_def stain_sannity_check_def derive_state_def
      Let_def numeral_2_eq_2





















subsection \<open>The state column\<close>

text \<open>
  Claim C1. With both primary stains configured, gating is to produce a \<^verbatim>\<open>state\<close> column
  that is \<^verbatim>\<open>live\<close> for \<^verbatim>\<open>dead=False, cell=True\<close>, \<^verbatim>\<open>inactive\<close> for
  \<^verbatim>\<open>dead=True, cell=True\<close> and \<^verbatim>\<open>debris\<close> for \<^verbatim>\<open>cell=False\<close>. The guard of line 252
  tests the truth value of the second threshold, so a threshold of \<open>0\<close> counts as absent:
  for the frame below, with both stains configured and both gates passing their checks,
  the result has the columns \<^verbatim>\<open>dead\<close> and \<^verbatim>\<open>cell\<close> and no \<^verbatim>\<open>state\<close> column.
\<close>

theorem state_missing_for_zero_threshold:
  "apply_gating True ex_table (Some ''viability'') ''>'' (Some 0) (Some ''marker'') ''>'' (Some 0) 150 None
   = Inr (\<lparr>nrows = 2, cols = [(''viability'', NumCol [- arsinh (1 / 150), arsinh (1 / 150)]),
        (''marker'', NumCol [arsinh 3, 0]), (''predictions'', StrCol [''A'', ''B'']),
        (''dead'', BoolCol [False, True]), (''cell'', BoolCol [True, False])]\<rparr>, [''dead'', ''cell''])"
  by (simp add: gating_defs ex_table_def)

text \<open>
  When the guard of line 252 holds, the state column follows the truth table of the
  specification (the labels of the extra stains must not overwrite the three columns).
\<close>

lemma state_follows_spec_state:
  assumes wf: "wf_table data_df"
    and t: "truthy_str stain1" "truthy_str stain2" "truthy_num t2"
    and ex: "\<forall>items. extras = Some items \<longrightarrow>
               ''dead'' \<notin> extra_label ` set items \<and> ''cell'' \<notin> extra_label ` set items
               \<and> ''state'' \<notin> extra_label ` set items"
    and ok: "apply_gating csv data_df stain1 r1 t1 stain2 r2 t2 k extras = Inr (gated, labels)"
  shows "\<exists>dead cell. get_col gated ''dead'' = Inr (BoolCol dead)
           \<and> get_col gated ''cell'' = Inr (BoolCol cell)
           \<and> length dead = nrows gated \<and> length cell = nrows gated
           \<and> get_col gated ''state'' = Inr (StrCol (map2 spec_state dead cell))
           \<and> ''state'' \<in> set labels"
proof -
  from apply_gating_both [OF wf t ok] obtain dead cell where
    l: "length dead = nrows data_df" "length cell = nrows data_df"
    and r: "(case extras of None \<Rightarrow> Inr
                (set_col ''state'' (StrCol (map2 spec_state dead cell))
                  (set_col ''cell'' (BoolCol cell)
                    (set_col ''dead'' (BoolCol dead) (arcsinh_transformed k data_df))),
                 [''dead'', ''cell'', ''state''])
              | Some items \<Rightarrow> extra_stains_loop items
                (set_col ''state'' (StrCol (map2 spec_state dead cell))
                  (set_col ''cell'' (BoolCol cell)
                    (set_col ''dead'' (BoolCol dead) (arcsinh_transformed k data_df))))
                 [''dead'', ''cell'', ''state'']) = Inr (gated, labels)"
    by blast
  define S where "S = set_col ''state'' (StrCol (map2 spec_state dead cell))
                  (set_col ''cell'' (BoolCol cell)
                    (set_col ''dead'' (BoolCol dead) (arcsinh_transformed k data_df)))"
  have S: "get_col S ''dead'' = Inr (BoolCol dead)" "get_col S ''cell'' = Inr (BoolCol cell)"
    "get_col S ''state'' = Inr (StrCol (map2 spec_state dead cell))" "nrows S = nrows data_df"
    by (simp_all add: S_def get_col_set_col nrows_set_col nrows_arcsinh_transformed)
  show ?thesis
  proof (cases extras)
    case None
    with r have "gated = S" "labels = [''dead'', ''cell'', ''state'']" by (simp_all add: S_def)
    with S l show ?thesis by simp
  next
    case (Some items)
    with r have loop: "extra_stains_loop items S [''dead'', ''cell'', ''state''] = Inr (gated, labels)"
      by (simp add: S_def)
    from ex Some have n: "''dead'' \<notin> extra_label ` set items" "''cell'' \<notin> extra_label ` set items"
      "''state'' \<notin> extra_label ` set items" by auto
    from extra_stains_loop_frame [OF loop n(1)] extra_stains_loop_frame [OF loop n(2)]
      extra_stains_loop_frame [OF loop n(3)] extra_stains_loop_labels [OF loop] S l
    show ?thesis by simp
  qed
qed

subsection \<open>The label list\<close>

text \<open>
  Claim C8, as stated, fails: the list that \<^verbatim>\<open>apply_gating\<close> returns, when both primary
  stains are present and the state column exists, contains \<^verbatim>\<open>dead\<close> and \<^verbatim>\<open>cell\<close>.
\<close>

theorem returned_labels_keep_dead_and_cell:
  "map_sum id snd (apply_gating True ex_table (Some ''viability'') ''>'' (Some 0)
       (Some ''marker'') ''>'' (Some 1) 150 None)
   = Inr [''dead'', ''cell'', ''state'']"
  by (simp add: gating_defs ex_table_def less_arsinh_iff_sinh sinh_1_less_3)

lemma primary_stain_labels:
  "primary_stain label stain rel thr df ls = Inr (df', ls') \<Longrightarrow>
   ls' = ls @ (if stain = None then [] else [label])"
  by (cases stain) (auto simp: primary_stain_def Let_def split: sum.splits if_splits)

lemma apply_gating_labels:
  assumes "apply_gating csv data_df s1 r1 t1 s2 r2 t2 k extras = Inr (gated, labels)"
  shows "labels = (if s1 = None then [] else [''dead'']) @ (if s2 = None then [] else [''cell''])
           @ (if truthy_str s2 \<and> truthy_num t2 \<and> truthy_str s1 then [''state''] else [])
           @ (case extras of None \<Rightarrow> [] | Some items \<Rightarrow> map extra_label items)"
proof -
  from assms obtain g1 l1 where
    p1: "primary_stain ''dead'' s1 r1 t1 (arcsinh_transformed k data_df) [] = Inr (g1, l1)"
    unfolding apply_gating_def by (auto split: sum.splits)
  from assms p1 obtain g2 l2 where p2: "primary_stain ''cell'' s2 r2 t2 g1 l1 = Inr (g2, l2)"
    unfolding apply_gating_def by (auto split: sum.splits)
  from assms p1 p2 obtain g3 l3 where
    p3: "(if truthy_str s2 \<and> truthy_num t2 \<and> truthy_str s1
           then (case derive_state g2 of Inl e \<Rightarrow> Inl e | Inr g \<Rightarrow> Inr (g, l2 @ [''state'']))
           else Inr (g2, l2)) = Inr (g3, l3)"
    unfolding apply_gating_def by (auto split: sum.splits)
  from assms p1 p2 p3 have p4: "(case extras of None \<Rightarrow> Inr (g3, l3)
       | Some items \<Rightarrow> extra_stains_loop items g3 l3) = Inr (gated, labels)"
    unfolding apply_gating_def by (auto split: sum.splits if_splits)
  have l1: "l1 = (if s1 = None then [] else [''dead''])"
    using primary_stain_labels [OF p1] by simp
  have l2: "l2 = l1 @ (if s2 = None then [] else [''cell''])"
    using primary_stain_labels [OF p2] by simp
  have l3: "l3 = l2 @ (if truthy_str s2 \<and> truthy_num t2 \<and> truthy_str s1 then [''state''] else [])"
    using p3 by (auto split: if_splits sum.splits)
  have l4: "labels = l3 @ (case extras of None \<Rightarrow> [] | Some items \<Rightarrow> map extra_label items)"
    using p4 by (cases extras) (auto dest: extra_stains_loop_labels)
  show ?thesis unfolding l4 l3 l2 l1 by simp
qed

lemma truthy_str_Some: "truthy_str s \<Longrightarrow> s \<noteq> None"
  by (cases s) auto

text \<open>
  Claim C8, amended. When both primary stains are present and the state column is
  produced, \<^verbatim>\<open>apply_gating\<close> returns the labels \<^verbatim>\<open>dead\<close>, \<^verbatim>\<open>cell\<close>, \<^verbatim>\<open>state\<close> followed by
  the labels of the extra stains in their order; \<^verbatim>\<open>save_gating_results\<close>, called next on
  the same list, removes \<^verbatim>\<open>dead\<close> and \<^verbatim>\<open>cell\<close> and leaves \<^verbatim>\<open>state\<close> followed by the
  labels of the extra stains.
\<close>

theorem labels_after_save:
  assumes "truthy_str stain1" "truthy_str stain2" "truthy_num t2"
    and "apply_gating csv data_df stain1 r1 t1 stain2 r2 t2 k extras = Inr (gated, labels)"
  shows "labels = [''dead'', ''cell'', ''state'']
            @ (case extras of None \<Rightarrow> [] | Some items \<Rightarrow> map extra_label items)
       \<and> (get_col gated ''predictions'' = Inr c \<longrightarrow>
            save_gating_results gated labels =
              Inr (''state'' # (case extras of None \<Rightarrow> [] | Some items \<Rightarrow> map extra_label items)))"
proof -
  have l: "labels = [''dead'', ''cell'', ''state'']
            @ (case extras of None \<Rightarrow> [] | Some items \<Rightarrow> map extra_label items)"
    using apply_gating_labels [OF assms(4)] assms(1-3) truthy_str_Some by simp
  show ?thesis
    by (rule conjI [OF l]) (simp add: l save_gating_results_def)
qed

lemma ex_state:
  "apply_gating True ex_table (Some ''viability'') ''>'' (Some 0)
       (Some ''marker'') ''>'' (Some 1) 150 None
   = Inr (\<lparr>nrows = 2, cols = [(''viability'', NumCol [- arsinh (1 / 150), arsinh (1 / 150)]),
        (''marker'', NumCol [arsinh 3, 0]), (''predictions'', StrCol [''A'', ''B'']),
        (''dead'', BoolCol [False, True]), (''cell'', BoolCol [True, False]),
        (''state'', StrCol [''live'', ''debris''])]\<rparr>, [''dead'', ''cell'', ''state''])"
  by (simp add: gating_defs ex_table_def less_arsinh_iff_sinh sinh_1_less_3)

theorem labels_after_save_witness:
  "save_gating_results
     \<lparr>nrows = 2, cols = [(''viability'', NumCol [- arsinh (1 / 150), arsinh (1 / 150)]),
        (''marker'', NumCol [arsinh 3, 0]), (''predictions'', StrCol [''A'', ''B'']),
        (''dead'', BoolCol [False, True]), (''cell'', BoolCol [True, False]),
        (''state'', StrCol [''live'', ''debris''])]\<rparr> [''dead'', ''cell'', ''state'']
   = Inr [''state'']"
  using labels_after_save [OF _ _ _ ex_state, of "StrCol [''A'', ''B'']"]
  by (simp add: get_col_def)

subsection \<open>The caller's frame\<close>

text \<open>
  Each block of statements on the store does, at the address it is given, what the
  corresponding function does on the value of the frame, and touches no other frame.
\<close>

lemma df_write_nth:
  "g < length store \<Longrightarrow> df_write g f store ! g = f (store ! g)"
  "b \<noteq> g \<Longrightarrow> df_write g f store ! b = store ! b"
  "length (df_write g f store) = length store"
  by (simp_all add: df_write_def)

lemma runs_as_trans_frame:
  "length s1 = length s0 \<Longrightarrow> (\<forall>b. b \<noteq> g \<longrightarrow> s1 ! b = s0 ! b) \<Longrightarrow>
   runs_as g s1 res pure \<Longrightarrow> runs_as g s0 res pure"
  by (auto simp: runs_as_def split: sum.splits)

lemma arcsinh_transformed_in_runs:
  assumes "g < length store"
  shows "length (arcsinh_transformed_in k g store) = length store"
    and "b \<noteq> g \<Longrightarrow> arcsinh_transformed_in k g store ! b = store ! b"
    and "arcsinh_transformed_in k g store ! g = arcsinh_transformed k (store ! g)"
  using assms
  by (auto simp: arcsinh_transformed_in_def arcsinh_transformed_def Let_def df_write_nth
      split: option.splits)

lemma df_write_upd:
  "g < length store \<Longrightarrow> df_write g f (store[g := t]) = store[g := f t]"
  by (simp add: df_write_def)

lemma runs_as_upd:
  "g < length store \<Longrightarrow>
   runs_as g store (r, store[g := t]) pure \<longleftrightarrow>
     (case pure of Inl e \<Rightarrow> r = Inl e | Inr (t', r') \<Rightarrow> r = Inr r' \<and> t = t')"
  by (auto simp: runs_as_def split: sum.splits)

lemma primary_stain_in_runs:
  assumes g: "g < length store"
  shows "runs_as g store (primary_stain_in label stain rel thr g ls store)
           (primary_stain label stain rel thr (store ! g) ls)"
proof (cases stain)
  case None
  then show ?thesis by (simp add: primary_stain_in_def primary_stain_def runs_as_def)
next
  case (Some ch)
  define df where "df = store ! g"
  define init where "init = replicate (nrows df) False"
  define df1 where "df1 = set_col label (BoolCol init) df"
  define W where "W =
                (if rel \<in> set [''>'', ''greater_than''] then
                   (case get_col df1 ch of
                      Inl e \<Rightarrow> Inl e
                    | Inr c \<Rightarrow>
                       (case col_gt c thr of
                          Inl e \<Rightarrow> Inl e
                        | Inr hits \<Rightarrow> Inr (set_col label (BoolCol (where_set hits True init)) df1)))
                 else if rel \<in> set [''<'', ''less_than''] then
                   (case get_col df1 ch of
                      Inl e \<Rightarrow> Inl e
                    | Inr c \<Rightarrow>
                       (case col_lt c thr of
                          Inl e \<Rightarrow> Inl e
                        | Inr hits \<Rightarrow> Inr (set_col label (BoolCol (where_set hits True init)) df1)))
                 else Inr df1)"
  have s1: "df_write g (set_col label (BoolCol init)) store = store[g := df1]"
    by (simp add: df_write_def df1_def df_def)
  have pure: "primary_stain label stain rel thr (store ! g) ls =
     (case W of Inl e \<Rightarrow> Inl e
      | Inr df2 \<Rightarrow> (case stain_sannity_check df2 label ch rel thr of
                   Inl e \<Rightarrow> Inl e
                 | Inr _ \<Rightarrow> Inr (df2, ls @ [label])))"
    unfolding primary_stain_def Some W_def df1_def init_def df_def by (simp add: Let_def)
  have imp: "primary_stain_in label stain rel thr g ls store =
     (case map_sum id (\<lambda>t. store[g := t]) W of
        Inl e \<Rightarrow> (Inl e, store[g := df1])
      | Inr store2 \<Rightarrow>
          (case stain_sannity_check (store2 ! g) label ch rel thr of
             Inl e \<Rightarrow> (Inl e, store2)
           | Inr _ \<Rightarrow> (Inr (ls @ [label]), store2)))"
  proof -
    have w: "(if rel \<in> set [''>'', ''greater_than''] then
                   (case get_col (store[g := df1] ! g) ch of
                      Inl e \<Rightarrow> Inl e
                    | Inr c \<Rightarrow>
                       (case col_gt c thr of
                          Inl e \<Rightarrow> Inl e
                        | Inr hits \<Rightarrow>
                            Inr (df_write g
                                   (set_col label (BoolCol (where_set hits True init))) (store[g := df1]))))
                 else if rel \<in> set [''<'', ''less_than''] then
                   (case get_col (store[g := df1] ! g) ch of
                      Inl e \<Rightarrow> Inl e
                    | Inr c \<Rightarrow>
                       (case col_lt c thr of
                          Inl e \<Rightarrow> Inl e
                        | Inr hits \<Rightarrow>
                            Inr (df_write g
                                   (set_col label (BoolCol (where_set hits True init))) (store[g := df1]))))
                 else Inr (store[g := df1])) = map_sum id (\<lambda>t. store[g := t]) W"
      using g unfolding W_def
      by (simp add: df_write_upd split: sum.splits)
    show ?thesis
      unfolding primary_stain_in_def Some option.case Let_def
      unfolding init_def [symmetric, unfolded df_def]
      unfolding s1
      unfolding w
      by (rule refl)
  qed
  show ?thesis
  proof (cases W)
    case (Inl e)
    then show ?thesis using g unfolding pure imp by (simp add: runs_as_upd)
  next
    case (Inr df2)
    then show ?thesis using g unfolding pure imp
      by (cases "stain_sannity_check df2 label ch rel thr") (simp_all add: runs_as_upd)
  qed
qed


lemma derive_state_in_runs:
  assumes g: "g < length store"
  shows "runs_as g store (derive_state_in g store)
           (map_sum id (\<lambda>t. (t, ())) (derive_state (store ! g)))"
proof -
  define df where "df = store ! g"
  define debris where "debris = replicate (nrows df) ''debris''"
  define df1 where "df1 = set_col ''state'' (StrCol debris) df"
  have s1: "df_write g (set_col ''state'' (StrCol debris)) store = store[g := df1]"
    by (simp add: df_write_def df1_def df_def)
  have n1: "store[g := df1] ! g = df1" using g by simp
  have imp: "derive_state_in g store =
     (case get_col df1 ''dead'' of
           Inl e \<Rightarrow> (Inl e, store[g := df1])
         | Inr dead \<Rightarrow>
            (case get_col df1 ''cell'' of
               Inl e \<Rightarrow> (Inl e, store[g := df1])
             | Inr cell \<Rightarrow>
                 (Inr (), store[g := set_col ''state''
                    (StrCol (where_set (map2 (\<and>) (col_eq_bool dead True) (col_eq_bool cell True))
                       ''inactive''
                       (where_set (map2 (\<and>) (col_eq_bool dead False) (col_eq_bool cell True))
                          ''live'' debris))) df1])))"
    unfolding derive_state_in_def Let_def
    unfolding debris_def [symmetric, unfolded df_def]
    unfolding s1 n1
    using g by (simp add: df_write_upd set_col_twice cong: sum.case_cong)
  have pure: "derive_state (store ! g) =
     (case get_col df1 ''dead'' of
           Inl e \<Rightarrow> Inl e
         | Inr dead \<Rightarrow>
            (case get_col df1 ''cell'' of
               Inl e \<Rightarrow> Inl e
             | Inr cell \<Rightarrow>
                 Inr (set_col ''state''
                    (StrCol (where_set (map2 (\<and>) (col_eq_bool dead True) (col_eq_bool cell True))
                       ''inactive''
                       (where_set (map2 (\<and>) (col_eq_bool dead False) (col_eq_bool cell True))
                          ''live'' debris))) df1)))"
    unfolding derive_state_def Let_def df1_def debris_def df_def by (rule refl)
  show ?thesis
    unfolding imp pure using g
    by (cases "get_col df1 ''dead''"; cases "get_col df1 ''cell''") (simp_all add: runs_as_upd)
qed

lemma extra_stains_loop_in_runs:
  "g < length store \<Longrightarrow>
   runs_as g store (extra_stains_loop_in items g ls store)
     (extra_stains_loop items (store ! g) ls)"
proof (induction items arbitrary: ls store)
  case Nil
  then show ?case by (simp add: runs_as_def)
next
  case (Cons item rest)
  obtain ch sign thr label where item: "item = (ch, sign, thr, label)" by (cases item) auto
  note g = Cons.prems
  show ?case
  proof (cases "get_col (store ! g) ch")
    case (Inl e)
    then show ?thesis by (simp add: item runs_as_def)
  next
    case c: (Inr c)
    show ?thesis
    proof (cases "if sign = ''>'' then col_gt c thr else col_lt c thr")
      case (Inl e)
      with c show ?thesis by (simp add: item runs_as_def)
    next
      case h: (Inr hits)
      define df1 where "df1 = set_col label (BoolCol hits) (store ! g)"
      have s1: "df_write g (set_col label (BoolCol hits)) store = store[g := df1]"
        by (simp add: df_write_def df1_def)
      have n1: "store[g := df1] ! g = df1" using g by simp
      show ?thesis
      proof (cases "stain_sannity_check df1 label ch sign thr")
        case (Inl e)
        with c h show ?thesis using g
          by (simp add: item s1 n1 df1_def [symmetric] runs_as_upd)
      next
        case (Inr u)
        have g1: "g < length (store[g := df1])" using g by simp
        from Cons.IH [OF g1, of "ls @ [label]"]
        have "runs_as g (store[g := df1])
                (extra_stains_loop_in rest g (ls @ [label]) (store[g := df1]))
                (extra_stains_loop rest df1 (ls @ [label]))"
          by (simp add: n1)
        then have "runs_as g store
                (extra_stains_loop_in rest g (ls @ [label]) (store[g := df1]))
                (extra_stains_loop rest df1 (ls @ [label]))"
          by (auto simp: runs_as_def split: sum.splits)
        with c h Inr show ?thesis
          by (simp add: item s1 n1 df1_def [symmetric])
      qed
    qed
  qed
qed


lemma runs_asD:
  assumes "runs_as g store (r, s') pure"
  shows "length s' = length store" "\<And>b. b \<noteq> g \<Longrightarrow> s' ! b = store ! b"
    "\<And>e. pure = Inl e \<Longrightarrow> r = Inl e"
    "\<And>t x. pure = Inr (t, x) \<Longrightarrow> r = Inr x \<and> s' ! g = t"
  using assms by (auto simp: runs_as_def)

lemma apply_gating_call_runs:
  assumes a: "a < length store"
  shows "runs_as (length store) (store @ [store ! a])
           (map_prod (map_sum id snd) id
              (apply_gating_call csv store a s1 r1 t1 s2 r2 t2 k extras))
           (apply_gating csv (store ! a) s1 r1 t1 s2 r2 t2 k extras)
       \<and> (\<forall>g ls. fst (apply_gating_call csv store a s1 r1 t1 s2 r2 t2 k extras) = Inr (g, ls)
            \<longrightarrow> g = length store)"
proof -
  define g where "g = length store"
  define st1 where "st1 = store @ [store ! a]"
  define st2 where "st2 = arcsinh_transformed_in k g st1"
  have g1: "g < length st1" by (simp add: g_def st1_def)
  have v1: "st1 ! g = store ! a" by (simp add: g_def st1_def)
  note tr = arcsinh_transformed_in_runs [OF g1, where k = k]
  have g2: "g < length st2" using tr(1) g1 by (simp add: st2_def)
  have f2: "length st2 = length st1" "\<And>b. b \<noteq> g \<Longrightarrow> st2 ! b = st1 ! b"
    and v2: "st2 ! g = arcsinh_transformed k (store ! a)"
    using tr by (simp_all add: st2_def v1)
  obtain q1 st3 where R1: "primary_stain_in ''dead'' s1 r1 t1 g [] st2 = (q1, st3)"
    by (cases "primary_stain_in ''dead'' s1 r1 t1 g [] st2") auto
  have run1: "runs_as g st2 (q1, st3)
                (primary_stain ''dead'' s1 r1 t1 (arcsinh_transformed k (store ! a)) [])"
    using primary_stain_in_runs [OF g2, of "''dead''" s1 r1 t1 "[]"] by (simp add: R1 v2)
  note d1 = runs_asD [OF run1]
  have f3: "length st3 = length st1" "\<And>b. b \<noteq> g \<Longrightarrow> st3 ! b = st1 ! b"
    using d1(1,2) f2 by simp_all
  have call: "apply_gating_call csv store a s1 r1 t1 s2 r2 t2 k extras =
     (case (q1, st3) of
           (Inl e, store3) \<Rightarrow> (Inl e, store3)
         | (Inr labels1, store3) \<Rightarrow>
            (case primary_stain_in ''cell'' s2 r2 t2 g labels1 store3 of
               (Inl e, store4) \<Rightarrow> (Inl e, store4)
             | (Inr labels2, store4) \<Rightarrow>
                (case (if truthy_str s2 \<and> truthy_num t2 \<and> truthy_str s1
                       then (case derive_state_in g store4 of
                               (Inl e, store5) \<Rightarrow> (Inl e, store5)
                             | (Inr _, store5) \<Rightarrow> (Inr (labels2 @ [''state'']), store5))
                       else (Inr labels2, store4)) of
                   (Inl e, store5) \<Rightarrow> (Inl e, store5)
                 | (Inr labels3, store5) \<Rightarrow>
                     if \<not> csv then (Inl OSError, store5)
                     else (case extras of
                             None \<Rightarrow> (Inr (g, labels3), store5)
                           | Some items \<Rightarrow>
                              (case extra_stains_loop_in items g labels3 store5 of
                                 (Inl e, store6) \<Rightarrow> (Inl e, store6)
                               | (Inr labels4, store6) \<Rightarrow>
                                   (Inr (g, labels4), store6))))))"
    unfolding apply_gating_call_def df_copy_def
    by (simp add: Let_def g_def [symmetric] st1_def [symmetric] st2_def [symmetric] R1)
  have main: "runs_as g st1 (map_prod (map_sum id snd) id
              (apply_gating_call csv store a s1 r1 t1 s2 r2 t2 k extras))
           (apply_gating csv (store ! a) s1 r1 t1 s2 r2 t2 k extras)
       \<and> (\<forall>g' ls. fst (apply_gating_call csv store a s1 r1 t1 s2 r2 t2 k extras) = Inr (g', ls)
            \<longrightarrow> g' = g)"
  proof (cases "primary_stain ''dead'' s1 r1 t1 (arcsinh_transformed k (store ! a)) []")
    case (Inl e)
    from d1(3) [OF Inl] f3 show ?thesis
      unfolding call by (simp add: apply_gating_def Inl runs_as_def)
  next
    case P1: (Inr p1)
    obtain df1 l1 where p1: "p1 = (df1, l1)" by (cases p1) auto
    from d1(4) [OF P1 [unfolded p1]] have q1: "q1 = Inr l1" and v3: "st3 ! g = df1" by simp_all
    have g3: "g < length st3" using f3 g1 by simp
    obtain q2 st4 where R2: "primary_stain_in ''cell'' s2 r2 t2 g l1 st3 = (q2, st4)"
      by (cases "primary_stain_in ''cell'' s2 r2 t2 g l1 st3") auto
    have run2: "runs_as g st3 (q2, st4) (primary_stain ''cell'' s2 r2 t2 df1 l1)"
      using primary_stain_in_runs [OF g3, of "''cell''" s2 r2 t2 l1] by (simp add: R2 v3)
    note d2 = runs_asD [OF run2]
    have f4: "length st4 = length st1" "\<And>b. b \<noteq> g \<Longrightarrow> st4 ! b = st1 ! b"
      using d2(1,2) f3 by simp_all
    show ?thesis
    proof (cases "primary_stain ''cell'' s2 r2 t2 df1 l1")
      case (Inl e)
      from d2(3) [OF Inl] f4 show ?thesis
        unfolding call
        by (simp add: apply_gating_def P1 p1 q1 R2 Inl runs_as_def)
    next
      case P2: (Inr p2)
      obtain df2 l2 where p2: "p2 = (df2, l2)" by (cases p2) auto
      from d2(4) [OF P2 [unfolded p2]] have q2: "q2 = Inr l2" and v4: "st4 ! g = df2" by simp_all
      have g4: "g < length st4" using f4 g1 by simp
      define cond where "cond \<longleftrightarrow> truthy_str s2 \<and> truthy_num t2 \<and> truthy_str s1"
      obtain q3 st5 where R3: "(if cond
                       then (case derive_state_in g st4 of
                               (Inl e, store5) \<Rightarrow> (Inl e, store5)
                             | (Inr _, store5) \<Rightarrow> (Inr (l2 @ [''state'']), store5))
                       else (Inr l2, st4)) = (q3, st5)"
        by (cases "(if cond
                       then (case derive_state_in g st4 of
                               (Inl e, store5) \<Rightarrow> (Inl e, store5)
                             | (Inr _, store5) \<Rightarrow> (Inr (l2 @ [''state'']), store5))
                       else (Inr l2, st4))") auto
      define P3 where "P3 = (if cond
                    then (case derive_state df2 of
                            Inl e \<Rightarrow> Inl e
                          | Inr gated3 \<Rightarrow> Inr (gated3, l2 @ [''state'']))
                    else Inr (df2, l2))"
      have run3: "runs_as g st4 (q3, st5) P3"
      proof (cases cond)
        case False
        with R3 v4 show ?thesis by (auto simp: P3_def runs_as_def)
      next
        case True
        obtain qd sd where D: "derive_state_in g st4 = (qd, sd)"
          by (cases "derive_state_in g st4") auto
        from derive_state_in_runs [OF g4] have
          rd: "runs_as g st4 (qd, sd) (map_sum id (\<lambda>t. (t, ())) (derive_state df2))"
          by (simp add: D v4)
        show ?thesis
        proof (cases "derive_state df2")
          case (Inl e)
          with rd R3 True D show ?thesis by (auto simp: P3_def runs_as_def)
        next
          case (Inr t)
          with rd R3 True D show ?thesis by (auto simp: P3_def runs_as_def)
        qed
      qed
      note d3 = runs_asD [OF run3]
      have f5: "length st5 = length st1" "\<And>b. b \<noteq> g \<Longrightarrow> st5 ! b = st1 ! b"
        using d3(1,2) f4 by simp_all
      have pure3: "apply_gating csv (store ! a) s1 r1 t1 s2 r2 t2 k extras =
          (case P3 of Inl e \<Rightarrow> Inl e
           | Inr (gated3, labels3) \<Rightarrow>
                  if \<not> csv then Inl OSError
                  else (case extras of
                          None \<Rightarrow> Inr (gated3, labels3)
                        | Some items \<Rightarrow> extra_stains_loop items gated3 labels3))"
        by (simp add: apply_gating_def P1 p1 P2 p2 P3_def cond_def)
      have call3: "apply_gating_call csv store a s1 r1 t1 s2 r2 t2 k extras =
          (case (q3, st5) of
                   (Inl e, store5) \<Rightarrow> (Inl e, store5)
                 | (Inr labels3, store5) \<Rightarrow>
                     if \<not> csv then (Inl OSError, store5)
                     else (case extras of
                             None \<Rightarrow> (Inr (g, labels3), store5)
                           | Some items \<Rightarrow>
                              (case extra_stains_loop_in items g labels3 store5 of
                                 (Inl e, store6) \<Rightarrow> (Inl e, store6)
                               | (Inr labels4, store6) \<Rightarrow>
                                   (Inr (g, labels4), store6))))"
        unfolding call by (simp add: q1 R2 q2 R3 [unfolded cond_def])
      show ?thesis
      proof (cases P3)
        case (Inl e)
        from d3(3) [OF Inl] f5 show ?thesis
          unfolding call3 pure3 by (simp add: Inl runs_as_def)
      next
        case P3r: (Inr p3)
        obtain df3 l3 where p3: "p3 = (df3, l3)" by (cases p3) auto
        from d3(4) [OF P3r [unfolded p3]] have q3: "q3 = Inr l3" and v5: "st5 ! g = df3"
          by simp_all
        have g5: "g < length st5" using f5 g1 by simp
        show ?thesis
        proof (cases csv)
          case False
          with f5 show ?thesis
            unfolding call3 pure3 by (simp add: P3r p3 q3 runs_as_def)
        next
          case True
          show ?thesis
          proof (cases extras)
            case None
            with True f5 v5 show ?thesis
              unfolding call3 pure3 by (simp add: P3r p3 q3 runs_as_def)
          next
            case (Some items)
            obtain q4 st6 where R4: "extra_stains_loop_in items g l3 st5 = (q4, st6)"
              by (cases "extra_stains_loop_in items g l3 st5") auto
            have run4: "runs_as g st5 (q4, st6) (extra_stains_loop items df3 l3)"
              using extra_stains_loop_in_runs [OF g5, of items l3] by (simp add: R4 v5)
            note d4 = runs_asD [OF run4]
            have f6: "length st6 = length st1" "\<And>b. b \<noteq> g \<Longrightarrow> st6 ! b = st1 ! b"
              using d4(1,2) f5 by simp_all
            show ?thesis
            proof (cases "extra_stains_loop items df3 l3")
              case (Inl e)
              from d4(3) [OF Inl] f6 True Some show ?thesis
                unfolding call3 pure3 by (simp add: P3r p3 q3 R4 Inl runs_as_def)
            next
              case (Inr p4)
              obtain df4 l4 where p4: "p4 = (df4, l4)" by (cases p4) auto
              from d4(4) [OF Inr [unfolded p4]] f6 True Some show ?thesis
                unfolding call3 pure3
                by (simp add: P3r p3 q3 R4 Inr p4 runs_as_def)
            qed
          qed
        qed
      qed
    qed
  qed
  then show ?thesis by (simp add: g_def st1_def)
qed


text \<open>
  Claim C10. A call of \<^verbatim>\<open>apply_gating\<close> leaves the caller's frame, and every other frame
  that existed before the call, as it was, whether the call returns or raises: every
  write of the function goes to the copy. The frame it returns is that copy, a new
  frame, and it holds what \<^verbatim>\<open>apply_gating\<close> computes from the content of the caller's
  frame; an exception is the one that the computation on the content gives.
\<close>

theorem apply_gating_call_frame:
  "a < length store \<Longrightarrow>
   (\<forall>b < length store.
      snd (apply_gating_call csv store a s1 r1 t1 s2 r2 t2 k extras) ! b = store ! b)
   \<and> (\<forall>g ls. fst (apply_gating_call csv store a s1 r1 t1 s2 r2 t2 k extras) = Inr (g, ls)
        \<longrightarrow> g = length store \<and> g \<noteq> a
          \<and> apply_gating csv (store ! a) s1 r1 t1 s2 r2 t2 k extras
              = Inr (snd (apply_gating_call csv store a s1 r1 t1 s2 r2 t2 k extras) ! g, ls))
   \<and> (\<forall>e. fst (apply_gating_call csv store a s1 r1 t1 s2 r2 t2 k extras) = Inl e
        \<longrightarrow> apply_gating csv (store ! a) s1 r1 t1 s2 r2 t2 k extras = Inl e)"
proof -
  assume a: "a < length store"
  define R where "R = apply_gating_call csv store a s1 r1 t1 s2 r2 t2 k extras"
  define P where "P = apply_gating csv (store ! a) s1 r1 t1 s2 r2 t2 k extras"
  from apply_gating_call_runs [OF a, of csv s1 r1 t1 s2 r2 t2 k extras]
  have run: "runs_as (length store) (store @ [store ! a]) (map_prod (map_sum id snd) id R) P"
    and fresh: "\<And>g ls. fst R = Inr (g, ls) \<Longrightarrow> g = length store"
    by (simp_all add: R_def P_def)
  have frame: "\<forall>b < length store. snd R ! b = store ! b"
  proof (intro allI impI)
    fix b assume b: "b < length store"
    then have "b \<noteq> length store" by simp
    with run have "snd R ! b = (store @ [store ! a]) ! b" by (simp add: runs_as_def)
    with b show "snd R ! b = store ! b" by (simp add: nth_append)
  qed
  have ok: "g = length store \<and> g \<noteq> a \<and> P = Inr (snd R ! g, ls)" if "fst R = Inr (g, ls)" for g ls
  proof -
    from fresh [OF that] have g: "g = length store" .
    from run that g have "P = Inr (snd R ! g, ls)"
      by (cases P) (auto simp: runs_as_def)
    with g a show ?thesis by simp
  qed
  have err: "P = Inl e" if "fst R = Inl e" for e
    using run that by (cases P) (auto simp: runs_as_def)
  from frame ok err show ?thesis unfolding R_def P_def by blast
qed

lemma ex_call:
  "fst (apply_gating_call True [ex_table] 0 (Some ''viability'') ''>'' (Some 0)
       (Some ''marker'') ''>'' (Some 1) 150 None) = Inr (1, [''dead'', ''cell'', ''state''])"
  by (simp add: apply_gating_call_def df_copy_def arcsinh_transformed_in_def df_write_def
      primary_stain_in_def derive_state_in_def ex_table_def Let_def pop_col_def arcsinh_numeric_def
      set_col_def get_col_def where_set_def stain_sannity_check_def numeral_2_eq_2
      less_arsinh_iff_sinh sinh_1_less_3)

theorem apply_gating_call_frame_witness:
  "snd (apply_gating_call True [ex_table] 0 (Some ''viability'') ''>'' (Some 0)
       (Some ''marker'') ''>'' (Some 1) 150 None) ! 0 = ex_table
   \<and> get_col (snd (apply_gating_call True [ex_table] 0 (Some ''viability'') ''>'' (Some 0)
       (Some ''marker'') ''>'' (Some 1) 150 None) ! 1) ''state''
       = Inr (StrCol [''live'', ''debris''])"
proof -
  let ?R = "apply_gating_call True [ex_table] 0 (Some ''viability'') ''>'' (Some 0)
       (Some ''marker'') ''>'' (Some 1) 150 None"
  have h: "(0::nat) < length [ex_table]" by simp
  note t = apply_gating_call_frame [OF h, of True "Some ''viability''" "''>''" "Some 0"
       "Some ''marker''" "''>''" "Some 1" 150 None]
  from t have 1: "snd ?R ! 0 = ex_table" by simp
  from t ex_call have "apply_gating True ([ex_table] ! 0) (Some ''viability'') ''>'' (Some 0)
       (Some ''marker'') ''>'' (Some 1) 150 None = Inr (snd ?R ! 1, [''dead'', ''cell'', ''state''])"
    by blast
  then have "snd ?R ! 1 =
     \<lparr>nrows = 2, cols = [(''viability'', NumCol [- arsinh (1 / 150), arsinh (1 / 150)]),
        (''marker'', NumCol [arsinh 3, 0]), (''predictions'', StrCol [''A'', ''B'']),
        (''dead'', BoolCol [False, True]), (''cell'', BoolCol [True, False]),
        (''state'', StrCol [''live'', ''debris''])]\<rparr>"
    by (simp add: ex_state)
  then have "get_col (snd ?R ! 1) ''state'' = Inr (StrCol [''live'', ''debris''])"
    by (simp add: get_col_def)
  with 1 show ?thesis by simp
qed

subsection \<open>The uncertainty filter\<close>

lemma prediction_frame_filtered:
  assumes "prediction_frame df pcs us idx True thr = Inr pred"
  shows "get_col pred ''uncertainties'' = Inr (NumCol us)
       \<and> (\<exists>ps. get_col pred ''predictions'' = Inr (StrCol ps) \<and> length ps = length pcs
            \<and> (\<forall>i < length pcs. ps ! i = (if us ! i > thr then ''Unknown''
                                          else species_name idx (pcs ! i))))"
proof -
  from assms have len: "length pcs = nrows df" "length us = nrows df"
    by (auto simp: prediction_frame_def Let_def split: if_splits)
  define ps where "ps = where_set (map (\<lambda>u. u > thr) us) ''Unknown'' (map (species_name idx) pcs)"
  from assms have pred: "pred = set_col ''predictions'' (StrCol ps)
      (set_col ''uncertainties'' (NumCol us)
        (set_col ''predictions'' (StrCol (map (species_name idx) pcs))
           (if ''Time'' \<in> fst ` set (cols df) then pop_col ''Time'' df else df)))"
    by (auto simp: prediction_frame_def Let_def ps_def split: if_splits)
  have "length ps = length pcs" using len by (simp add: ps_def length_where_set)
  moreover have "\<forall>i < length pcs. ps ! i = (if us ! i > thr then ''Unknown''
                                          else species_name idx (pcs ! i))"
    using len by (simp add: ps_def nth_where_set)
  moreover have "get_col pred ''uncertainties'' = Inr (NumCol us)"
    "get_col pred ''predictions'' = Inr (StrCol ps)"
    by (simp_all add: pred get_col_set_col)
  ultimately show ?thesis by blast
qed

text \<open>
  Claim C4. When filtering is enabled and \<^verbatim>\<open>predict\<close> gets past the filter, the
  \<^verbatim>\<open>predictions\<close> column of \<^verbatim>\<open>data_df_pred\<close> holds \<^verbatim>\<open>Unknown\<close> in exactly the rows
  whose uncertainty is strictly greater than the effective threshold and the predicted
  species name in all other rows, and the \<^verbatim>\<open>uncertainties\<close> column holds the values that
  \<^verbatim>\<open>predict_species\<close> computed.
\<close>

theorem uncertainty_filter:
  assumes "kw_filter_out_uncertain kw"
    and "predict environment kw = Inr out"
  shows "\<exists>threshold pcs us idx ps.
           get_uncertainty_threshold (length (kw_label_encoder kw)) (kw_uncertainty_threshold kw)
             = Inr threshold
         \<and> predict_species (kw_data_df kw) (kw_model kw) (kw_scaler kw) (kw_label_encoder kw)
              (kw_scaling_constant kw) = Inr (pcs, us, idx)
         \<and> get_col (data_df_pred out) ''uncertainties'' = Inr (NumCol us)
         \<and> get_col (data_df_pred out) ''predictions'' = Inr (StrCol ps)
         \<and> length ps = length pcs \<and> length us = length pcs
         \<and> (\<forall>i < length pcs. ps ! i = (if us ! i > threshold then ''Unknown''
                                       else species_name idx (pcs ! i)))"
proof -
  from assms obtain threshold where
    t: "get_uncertainty_threshold (length (kw_label_encoder kw)) (kw_uncertainty_threshold kw)
             = Inr threshold"
    by (auto simp: predict_def split: sum.splits)
  from assms t obtain pcs us idx where
    p: "predict_species (kw_data_df kw) (kw_model kw) (kw_scaler kw) (kw_label_encoder kw)
              (kw_scaling_constant kw) = Inr (pcs, us, idx)"
    by (auto simp: predict_def split: sum.splits)
  from assms t p obtain pred where
    f: "prediction_frame (kw_data_df kw) pcs us idx True threshold = Inr pred"
    by (auto simp: predict_def split: sum.splits)
  from assms t p f have d: "data_df_pred out = pred"
    by (auto simp: predict_def split: sum.splits if_splits prod.splits)
  from f have len: "length us = length pcs"
    by (auto simp: prediction_frame_def Let_def split: if_splits)
  from prediction_frame_filtered [OF f] t p d len show ?thesis by blast
qed


subsection \<open>The input of the heterogeneity computation\<close>

text \<open>Selection by a mask keeps exactly the positions where the mask is true.\<close>

lemma select_nths: "select hits xs = nths xs {i. i < length hits \<and> hits ! i}"
proof (induction hits arbitrary: xs)
  case Nil
  then show ?case by (simp add: select_def)
next
  case (Cons h hs)
  show ?case
  proof (cases xs)
    case Nil
    then show ?thesis by (simp add: select_def)
  next
    case (Cons y ys)
    have "{j. Suc j < Suc (length hs) \<and> (h # hs) ! Suc j} = {i. i < length hs \<and> hs ! i}"
      by simp
    then show ?thesis
      using Cons.IH [of ys] unfolding Cons
      by (simp add: select_def nths_Cons)
  qed
qed

lemma list_remove_other:
  "list_remove x xs = Inr ys \<Longrightarrow> y \<noteq> x \<Longrightarrow> y \<in> set ys \<longleftrightarrow> y \<in> set xs"
  by (induction xs arbitrary: ys) (auto split: if_splits sum.splits)

lemma save_gating_results_state:
  "save_gating_results df ls = Inr ls' \<Longrightarrow> ''state'' \<in> set ls' \<longleftrightarrow> ''state'' \<in> set ls"
proof -
  assume a: "save_gating_results df ls = Inr ls'"
  show ?thesis
  proof (cases "''state'' \<in> set ls")
    case False
    with a show ?thesis by (auto simp: save_gating_results_def split: sum.splits)
  next
    case True
    with a obtain l1 where 1: "list_remove ''dead'' ls = Inr l1" and 2: "list_remove ''cell'' l1 = Inr ls'"
      by (auto simp: save_gating_results_def split: sum.splits)
    have "''state'' \<in> set l1" using list_remove_other [OF 1, of "''state''"] True by simp
    then have "''state'' \<in> set ls'" using list_remove_other [OF 2, of "''state''"] by simp
    with True show ?thesis by simp
  qed
qed

text \<open>
  The frame passed to \<^verbatim>\<open>run_heterogeneity\<close>, as the term that \<^verbatim>\<open>predict\<close> computes; the
  membership of \<^verbatim>\<open>state\<close> is the same in the list that gating returned and in the list
  after \<^verbatim>\<open>save_gating_results\<close>.
\<close>

lemma hetero_df_selection:
  assumes "predict environment kw = Inr out"
  shows "(kw_gating kw \<longrightarrow>
           (\<exists>gating_df all_labels.
              apply_gating (env_csv_ok environment) (data_df_pred out)
                (stain_channel (kw_stain1 kw)) (stain_sign (kw_stain1 kw))
                (stain_value (kw_stain1 kw))
                (stain_channel (kw_stain2 kw)) (stain_sign (kw_stain2 kw))
                (stain_value (kw_stain2 kw))
                (kw_scaling_constant kw) (kw_extra_stains kw) = Inr (gating_df, all_labels)
            \<and> (''state'' \<in> set all_labels \<longrightarrow>
                 (\<exists>state. get_col gating_df ''state'' = Inr state
                    \<and> hetero_df out = select_rows (col_eq_str state ''live'') gating_df))
            \<and> (''state'' \<notin> set all_labels \<longrightarrow> hetero_df out = gating_df)))
       \<and> (\<not> kw_gating kw \<longrightarrow> hetero_df out = data_df_pred out)"
proof -
  from assms obtain threshold pcs us idx pred where
    f: "prediction_frame (kw_data_df kw) pcs us idx (kw_filter_out_uncertain kw) threshold = Inr pred"
    and rest: "(if kw_gating kw then
                    (case apply_gating (env_csv_ok environment) pred
                            (stain_channel (kw_stain1 kw)) (stain_sign (kw_stain1 kw))
                            (stain_value (kw_stain1 kw))
                            (stain_channel (kw_stain2 kw)) (stain_sign (kw_stain2 kw))
                            (stain_value (kw_stain2 kw))
                            (kw_scaling_constant kw) (kw_extra_stains kw) of
                       Inl e \<Rightarrow> Inl e
                     | Inr (gating_df, all_labels) \<Rightarrow>
                        (case save_gating_results gating_df all_labels of
                           Inl e \<Rightarrow> Inl e
                         | Inr all_labels1 \<Rightarrow>
                             if \<not> env_gating_saved environment then Inl OSError
                             else if ''state'' \<in> set all_labels1 then
                               (case get_col gating_df ''state'' of
                                  Inl e \<Rightarrow> Inl e
                                | Inr state \<Rightarrow>
                                    Inr \<lparr>data_df_pred = pred,
                                         hetero_df =
                                           select_rows (col_eq_str state ''live'') gating_df\<rparr>)
                             else Inr \<lparr>data_df_pred = pred, hetero_df = gating_df\<rparr>))
                  else Inr \<lparr>data_df_pred = pred, hetero_df = pred\<rparr>) = Inr out"
    unfolding predict_def by (auto split: sum.splits if_splits prod.splits)
  show ?thesis
  proof (cases "kw_gating kw")
    case False
    with rest show ?thesis by auto
  next
    case True
    with rest obtain gating_df all_labels where
      g: "apply_gating (env_csv_ok environment) pred
                            (stain_channel (kw_stain1 kw)) (stain_sign (kw_stain1 kw))
                            (stain_value (kw_stain1 kw))
                            (stain_channel (kw_stain2 kw)) (stain_sign (kw_stain2 kw))
                            (stain_value (kw_stain2 kw))
                            (kw_scaling_constant kw) (kw_extra_stains kw) = Inr (gating_df, all_labels)"
      by (auto split: sum.splits)
    from rest True g obtain all_labels1 where
      sv: "save_gating_results gating_df all_labels = Inr all_labels1"
      by (auto split: sum.splits)
    note st = save_gating_results_state [OF sv]
    from rest True g sv have p: "data_df_pred out = pred"
      by (auto split: sum.splits if_splits)
    from rest True g sv st have
      "(''state'' \<in> set all_labels \<longrightarrow>
                 (\<exists>state. get_col gating_df ''state'' = Inr state
                    \<and> hetero_df out = select_rows (col_eq_str state ''live'') gating_df))
            \<and> (''state'' \<notin> set all_labels \<longrightarrow> hetero_df out = gating_df)"
      by (auto split: sum.splits if_splits)
    with g p True show ?thesis by auto
  qed
qed


lemma live_mask:
  "{i. i < length (col_eq_str state ''live'') \<and> col_eq_str state ''live'' ! i} =
     (case state of StrCol xs \<Rightarrow> {i. i < length xs \<and> xs ! i = ''live''}
      | NumCol xs \<Rightarrow> {} | BoolCol bs \<Rightarrow> {})"
  by (cases state) auto

lemma count_true:
  "length (filter id (take n hits)) = card {i \<in> {i. i < length hits \<and> hits ! i}. i < n}"
proof -
  have "length (filter id (take n hits)) = card {i. i < length (take n hits) \<and> take n hits ! i}"
    by (simp add: length_filter_conv_card)
  also have "{i. i < length (take n hits) \<and> take n hits ! i}
      = {i \<in> {i. i < length hits \<and> hits ! i}. i < n}"
    by auto
  finally show ?thesis .
qed

lemma select_column_nths:
  "select_column hits c =
     (case c of NumCol ys \<Rightarrow> NumCol (nths ys {i. i < length hits \<and> hits ! i})
      | StrCol ys \<Rightarrow> StrCol (nths ys {i. i < length hits \<and> hits ! i})
      | BoolCol ys \<Rightarrow> BoolCol (nths ys {i. i < length hits \<and> hits ! i}))"
  by (cases c) (simp_all add: select_nths)

lemma select_live_rows:
  "select_rows (col_eq_str state ''live'') df =
     (let live = (case state of StrCol xs \<Rightarrow> {i. i < length xs \<and> xs ! i = ''live''}
                  | NumCol xs \<Rightarrow> {} | BoolCol bs \<Rightarrow> {})
      in \<lparr>nrows = card {i \<in> live. i < nrows df},
          cols = map (\<lambda>p. (fst p,
                   case snd p of NumCol ys \<Rightarrow> NumCol (nths ys live)
                   | StrCol ys \<Rightarrow> StrCol (nths ys live)
                   | BoolCol ys \<Rightarrow> BoolCol (nths ys live))) (cols df)\<rparr>)"
  unfolding select_rows_def Let_def count_true select_column_nths live_mask ..


text \<open>
  Claim C6. When \<^verbatim>\<open>predict\<close> reaches \<^verbatim>\<open>run_heterogeneity\<close>: if gating ran and the list of
  labels it returned contains \<^verbatim>\<open>state\<close>, the frame passed on has, in every column of the
  gated frame, exactly the entries at the rows whose state is \<^verbatim>\<open>live\<close>, in their order
  (no row when the state column does not hold strings); if gating ran without a
  \<^verbatim>\<open>state\<close> label it is the whole gated frame; if gating was skipped it is the whole
  prediction frame.
\<close>

theorem heterogeneity_input:
  assumes "predict environment kw = Inr out"
  shows "(kw_gating kw \<longrightarrow>
           (\<exists>gating_df all_labels.
              apply_gating (env_csv_ok environment) (data_df_pred out)
                (stain_channel (kw_stain1 kw)) (stain_sign (kw_stain1 kw))
                (stain_value (kw_stain1 kw))
                (stain_channel (kw_stain2 kw)) (stain_sign (kw_stain2 kw))
                (stain_value (kw_stain2 kw))
                (kw_scaling_constant kw) (kw_extra_stains kw) = Inr (gating_df, all_labels)
            \<and> (''state'' \<in> set all_labels \<longrightarrow>
                 (\<exists>state live. get_col gating_df ''state'' = Inr state
                    \<and> live = (case state of
                                StrCol xs \<Rightarrow> {i. i < length xs \<and> xs ! i = ''live''}
                              | NumCol xs \<Rightarrow> {} | BoolCol bs \<Rightarrow> {})
                    \<and> nrows (hetero_df out) = card {i \<in> live. i < nrows gating_df}
                    \<and> cols (hetero_df out) =
                        map (\<lambda>p. (fst p,
                               case snd p of NumCol ys \<Rightarrow> NumCol (nths ys live)
                               | StrCol ys \<Rightarrow> StrCol (nths ys live)
                               | BoolCol ys \<Rightarrow> BoolCol (nths ys live))) (cols gating_df)))
            \<and> (''state'' \<notin> set all_labels \<longrightarrow> hetero_df out = gating_df)))
       \<and> (\<not> kw_gating kw \<longrightarrow> hetero_df out = data_df_pred out)"
proof (intro conjI impI)
  assume "\<not> kw_gating kw"
  with hetero_df_selection [OF assms] show "hetero_df out = data_df_pred out" by blast
next
  assume "kw_gating kw"
  with hetero_df_selection [OF assms] obtain gating_df all_labels where
    g: "apply_gating (env_csv_ok environment) (data_df_pred out)
                (stain_channel (kw_stain1 kw)) (stain_sign (kw_stain1 kw))
                (stain_value (kw_stain1 kw))
                (stain_channel (kw_stain2 kw)) (stain_sign (kw_stain2 kw))
                (stain_value (kw_stain2 kw))
                (kw_scaling_constant kw) (kw_extra_stains kw) = Inr (gating_df, all_labels)"
    and y: "''state'' \<in> set all_labels \<longrightarrow>
                 (\<exists>state. get_col gating_df ''state'' = Inr state
                    \<and> hetero_df out = select_rows (col_eq_str state ''live'') gating_df)"
    and n: "''state'' \<notin> set all_labels \<longrightarrow> hetero_df out = gating_df"
    by blast
  have "''state'' \<in> set all_labels \<longrightarrow>
                 (\<exists>state live. get_col gating_df ''state'' = Inr state
                    \<and> live = (case state of
                                StrCol xs \<Rightarrow> {i. i < length xs \<and> xs ! i = ''live''}
                              | NumCol xs \<Rightarrow> {} | BoolCol bs \<Rightarrow> {})
                    \<and> nrows (hetero_df out) = card {i \<in> live. i < nrows gating_df}
                    \<and> cols (hetero_df out) =
                        map (\<lambda>p. (fst p,
                               case snd p of NumCol ys \<Rightarrow> NumCol (nths ys live)
                               | StrCol ys \<Rightarrow> StrCol (nths ys live)
                               | BoolCol ys \<Rightarrow> BoolCol (nths ys live))) (cols gating_df))"
  proof
    assume "''state'' \<in> set all_labels"
    with y obtain state where s: "get_col gating_df ''state'' = Inr state"
      and h: "hetero_df out = select_rows (col_eq_str state ''live'') gating_df" by blast
    show "\<exists>state live. get_col gating_df ''state'' = Inr state
                    \<and> live = (case state of
                                StrCol xs \<Rightarrow> {i. i < length xs \<and> xs ! i = ''live''}
                              | NumCol xs \<Rightarrow> {} | BoolCol bs \<Rightarrow> {})
                    \<and> nrows (hetero_df out) = card {i \<in> live. i < nrows gating_df}
                    \<and> cols (hetero_df out) =
                        map (\<lambda>p. (fst p,
                               case snd p of NumCol ys \<Rightarrow> NumCol (nths ys live)
                               | StrCol ys \<Rightarrow> StrCol (nths ys live)
                               | BoolCol ys \<Rightarrow> BoolCol (nths ys live))) (cols gating_df)"
    proof (intro exI conjI)
      show "get_col gating_df ''state'' = Inr state" by (rule s)
      show "(case state of StrCol xs \<Rightarrow> {i. i < length xs \<and> xs ! i = ''live''}
             | NumCol xs \<Rightarrow> {} | BoolCol bs \<Rightarrow> {}) =
            (case state of StrCol xs \<Rightarrow> {i. i < length xs \<and> xs ! i = ''live''}
             | NumCol xs \<Rightarrow> {} | BoolCol bs \<Rightarrow> {})" by (rule refl)
      show "nrows (hetero_df out) =
          card {i \<in> (case state of StrCol xs \<Rightarrow> {i. i < length xs \<and> xs ! i = ''live''}
             | NumCol xs \<Rightarrow> {} | BoolCol bs \<Rightarrow> {}). i < nrows gating_df}"
        unfolding h select_live_rows Let_def by (simp only: table.select_convs)
      show "cols (hetero_df out) =
          map (\<lambda>p. (fst p,
                 case snd p of
                   NumCol ys \<Rightarrow> NumCol (nths ys (case state of StrCol xs \<Rightarrow> {i. i < length xs \<and> xs ! i = ''live''}
             | NumCol xs \<Rightarrow> {} | BoolCol bs \<Rightarrow> {}))
                 | StrCol ys \<Rightarrow> StrCol (nths ys (case state of StrCol xs \<Rightarrow> {i. i < length xs \<and> xs ! i = ''live''}
             | NumCol xs \<Rightarrow> {} | BoolCol bs \<Rightarrow> {}))
                 | BoolCol ys \<Rightarrow> BoolCol (nths ys (case state of StrCol xs \<Rightarrow> {i. i < length xs \<and> xs ! i = ''live''}
             | NumCol xs \<Rightarrow> {} | BoolCol bs \<Rightarrow> {})))) (cols gating_df)"
        unfolding h select_live_rows Let_def by (simp only: table.select_convs)
    qed
  qed
  with g n show "\<exists>gating_df all_labels.
              apply_gating (env_csv_ok environment) (data_df_pred out)
                (stain_channel (kw_stain1 kw)) (stain_sign (kw_stain1 kw))
                (stain_value (kw_stain1 kw))
                (stain_channel (kw_stain2 kw)) (stain_sign (kw_stain2 kw))
                (stain_value (kw_stain2 kw))
                (kw_scaling_constant kw) (kw_extra_stains kw) = Inr (gating_df, all_labels)
            \<and> (''state'' \<in> set all_labels \<longrightarrow>
                 (\<exists>state live. get_col gating_df ''state'' = Inr state
                    \<and> live = (case state of
                                StrCol xs \<Rightarrow> {i. i < length xs \<and> xs ! i = ''live''}
                              | NumCol xs \<Rightarrow> {} | BoolCol bs \<Rightarrow> {})
                    \<and> nrows (hetero_df out) = card {i \<in> live. i < nrows gating_df}
                    \<and> cols (hetero_df out) =
                        map (\<lambda>p. (fst p,
                               case snd p of NumCol ys \<Rightarrow> NumCol (nths ys live)
                               | StrCol ys \<Rightarrow> StrCol (nths ys live)
                               | BoolCol ys \<Rightarrow> BoolCol (nths ys live))) (cols gating_df)))
            \<and> (''state'' \<notin> set all_labels \<longrightarrow> hetero_df out = gating_df)"
    by blast
qed

subsection \<open>A run of the pipeline\<close>

lemma entropy_half: "entropy [1 / 2, 1 / 2] = Some (ln 2)"
  by (simp add: entropy_def entr_def ln_div)

lemma entropy_one_hot: "entropy [0, 1] = Some 0"
  by (simp add: entropy_def entr_def)

lemma ex_threshold:
  "get_uncertainty_threshold (length (kw_label_encoder ex_kwargs))
     (kw_uncertainty_threshold ex_kwargs) = Inr (ln 2 / 2)"
proof -
  have "(0::real) \<le> ln 2" by simp
  then have "\<not> ln (2::real) < - 1" by linarith
  then have "get_uncertainty_threshold 2 (- 1) = Inr (ln 2 / 2)"
    using get_uncertainty_threshold_unfold [of 2 "ln 2" "- 1"] by simp
  then show ?thesis by (simp add: ex_kwargs_def numeral_2_eq_2)
qed

lemma ex_species:
  "predict_species (kw_data_df ex_kwargs) (kw_model ex_kwargs) (kw_scaler ex_kwargs)
     (kw_label_encoder ex_kwargs) (kw_scaling_constant ex_kwargs)
   = Inr ([1, 0], [0, ln 2], [(0, ''A''), (1, ''B'')])"
  by (simp add: ex_kwargs_def predict_species_def entropy_half entropy_one_hot)

lemma ex_frame:
  "prediction_frame (kw_data_df ex_kwargs) [1, 0] [0, ln 2] [(0, ''A''), (1, ''B'')]
     True (ln 2 / 2) = Inr ex_pred"
  by (simp add: ex_kwargs_def prediction_frame_def raw_table_def set_col_def where_set_def
      species_name_def ex_pred_def)

lemma ex_gated:
  "apply_gating (env_csv_ok ex_env) ex_pred
     (stain_channel (kw_stain1 ex_kwargs)) (stain_sign (kw_stain1 ex_kwargs))
     (stain_value (kw_stain1 ex_kwargs))
     (stain_channel (kw_stain2 ex_kwargs)) (stain_sign (kw_stain2 ex_kwargs))
     (stain_value (kw_stain2 ex_kwargs))
     (kw_scaling_constant ex_kwargs) (kw_extra_stains ex_kwargs) =
   Inr (ex_gating_df, [''dead'', ''cell'', ''state''])"
  by (simp add: ex_kwargs_def ex_env_def ex_pred_def ex_gating_df_def gating_defs
      less_arsinh_iff_sinh sinh_1_less_3)

lemma ex_saved:
  "save_gating_results ex_gating_df [''dead'', ''cell'', ''state''] = Inr [''state'']"
  by (simp add: save_gating_results_def get_col_def ex_gating_df_def)

lemma ex_live:
  "get_col ex_gating_df ''state'' = Inr (StrCol [''live'', ''debris''])"
  "select_rows (col_eq_str (StrCol [''live'', ''debris'']) ''live'') ex_gating_df = ex_hetero_df"
  by (simp_all add: get_col_def ex_gating_df_def ex_hetero_df_def select_rows_def select_def)

lemma ex_flags:
  "kw_filter_out_uncertain ex_kwargs" "kw_gating ex_kwargs" "env_predictions_saved ex_env"
  "env_gating_saved ex_env" "''state'' \<in> set [''state'']"
  by (simp_all add: ex_kwargs_def ex_env_def)

lemma ex_predict:
  "predict ex_env ex_kwargs = Inr \<lparr>data_df_pred = ex_pred, hetero_df = ex_hetero_df\<rparr>"
  by (simp only: predict_def ex_flags ex_threshold ex_species ex_frame ex_gated ex_saved ex_live
      if_True if_False not_True_eq_False sum.case prod.case)

theorem uncertainty_filter_witness:
  "get_col ex_pred ''predictions'' = Inr (StrCol [''B'', ''Unknown''])
   \<and> get_col ex_pred ''uncertainties'' = Inr (NumCol [0, ln 2])"
proof -
  from uncertainty_filter [OF ex_flags(1) ex_predict] obtain threshold pcs us idx ps where
    t: "get_uncertainty_threshold (length (kw_label_encoder ex_kwargs))
          (kw_uncertainty_threshold ex_kwargs) = Inr threshold"
    and p: "predict_species (kw_data_df ex_kwargs) (kw_model ex_kwargs) (kw_scaler ex_kwargs)
          (kw_label_encoder ex_kwargs) (kw_scaling_constant ex_kwargs) = Inr (pcs, us, idx)"
    and u: "get_col ex_pred ''uncertainties'' = Inr (NumCol us)"
    and c: "get_col ex_pred ''predictions'' = Inr (StrCol ps)"
    and l: "length ps = length pcs"
    and r: "\<forall>i < length pcs. ps ! i = (if us ! i > threshold then ''Unknown''
                                       else species_name idx (pcs ! i))"
    by auto
  from t have th: "threshold = ln 2 / 2" by (simp add: ex_threshold)
  from p have pp: "pcs = [1, 0]" "us = [0, ln 2]" "idx = [(0, ''A''), (1, ''B'')]"
    by (simp_all add: ex_species)
  from r have "ps ! 0 = ''B''" "ps ! 1 = ''Unknown''"
    by (simp_all add: pp th species_name_def)
  with l pp have "ps = [''B'', ''Unknown'']"
    by (cases ps; cases "tl ps") auto
  with c u pp show ?thesis by simp
qed

lemma live_ex: "{i. i < length [''live'', ''debris''] \<and> [''live'', ''debris''] ! i = ''live''} = {0}"
  by (auto simp: nth_Cons' less_2_cases_iff)

theorem heterogeneity_input_witness:
  "nrows ex_hetero_df = card {i \<in> {0::nat}. i < nrows ex_gating_df}
   \<and> cols ex_hetero_df =
        map (\<lambda>p. (fst p,
               case snd p of NumCol ys \<Rightarrow> NumCol (nths ys {0})
               | StrCol ys \<Rightarrow> StrCol (nths ys {0})
               | BoolCol ys \<Rightarrow> BoolCol (nths ys {0}))) (cols ex_gating_df)"
proof -
  from heterogeneity_input [OF ex_predict] obtain gating_df all_labels state live where
    g: "apply_gating (env_csv_ok ex_env) ex_pred
                (stain_channel (kw_stain1 ex_kwargs)) (stain_sign (kw_stain1 ex_kwargs))
                (stain_value (kw_stain1 ex_kwargs))
                (stain_channel (kw_stain2 ex_kwargs)) (stain_sign (kw_stain2 ex_kwargs))
                (stain_value (kw_stain2 ex_kwargs))
                (kw_scaling_constant ex_kwargs) (kw_extra_stains ex_kwargs) = Inr (gating_df, all_labels)"
    and r: "''state'' \<in> set all_labels \<longrightarrow>
             (\<exists>state live. get_col gating_df ''state'' = Inr state
                    \<and> live = (case state of
                                StrCol xs \<Rightarrow> {i. i < length xs \<and> xs ! i = ''live''}
                              | NumCol xs \<Rightarrow> {} | BoolCol bs \<Rightarrow> {})
                    \<and> nrows ex_hetero_df = card {i \<in> live. i < nrows gating_df}
                    \<and> cols ex_hetero_df =
                        map (\<lambda>p. (fst p,
                               case snd p of NumCol ys \<Rightarrow> NumCol (nths ys live)
                               | StrCol ys \<Rightarrow> StrCol (nths ys live)
                               | BoolCol ys \<Rightarrow> BoolCol (nths ys live))) (cols gating_df))"
    using ex_flags(2) by auto
  from g have e: "gating_df = ex_gating_df" "all_labels = [''dead'', ''cell'', ''state'']"
    by (simp_all add: ex_gated)
  from r e obtain state live where
    s: "get_col ex_gating_df ''state'' = Inr state"
    and l: "live = (case state of
                                StrCol xs \<Rightarrow> {i. i < length xs \<and> xs ! i = ''live''}
                              | NumCol xs \<Rightarrow> {} | BoolCol bs \<Rightarrow> {})"
    and c: "nrows ex_hetero_df = card {i \<in> live. i < nrows ex_gating_df}"
       "cols ex_hetero_df =
                        map (\<lambda>p. (fst p,
                               case snd p of NumCol ys \<Rightarrow> NumCol (nths ys live)
                               | StrCol ys \<Rightarrow> StrCol (nths ys live)
                               | BoolCol ys \<Rightarrow> BoolCol (nths ys live))) (cols ex_gating_df)"
    by auto
  from s have "state = StrCol [''live'', ''debris'']" by (simp add: ex_live)
  with l have lv: "live = {0}" by (simp only: column.case live_ex)
  show ?thesis using c [unfolded lv] by (intro conjI)
qed

subsection \<open>The range of the entropy\<close>

lemma entropy_valid:
  "valid_distribution pk \<Longrightarrow> entropy pk = Some (sum_list (map entr pk))"
  by (auto simp: valid_distribution_def entropy_def Let_def not_less)

lemma valid_le_1: "valid_distribution pk \<Longrightarrow> p \<in> set pk \<Longrightarrow> p \<le> 1"
  using member_le_sum_list [where x = p and xs = pk] by (auto simp: valid_distribution_def)

lemma entr_nonneg: "0 \<le> p \<Longrightarrow> p \<le> 1 \<Longrightarrow> 0 \<le> entr p"
proof -
  assume a: "0 \<le> p" "p \<le> 1"
  show ?thesis
  proof (cases "p = 0")
    case True then show ?thesis by (simp add: entr_def)
  next
    case False
    with a have "0 < p" by simp
    with a have "ln p \<le> 0" by simp
    with \<open>0 < p\<close> have "0 \<le> - p * ln p" by (simp add: mult_nonneg_nonpos2 mult_le_0_iff)
    with False show ?thesis by (simp add: entr_def)
  qed
qed

lemma entr_eq_0_iff: "0 \<le> p \<Longrightarrow> entr p = 0 \<longleftrightarrow> p = 0 \<or> p = 1"
  by (auto simp: entr_def)

lemma zero_one_sum:
  "(\<forall>p \<in> set xs. p = 0 \<or> p = (1::real)) \<Longrightarrow> sum_list xs = 1 \<Longrightarrow> one_hot xs"
proof (induction xs)
  case Nil
  then show ?case by simp
next
  case (Cons x xs)
  from Cons.prems(1) have x: "x = 0 \<or> x = 1" by simp
  then show ?case
  proof
    assume x1: "x = 1"
    with Cons.prems have "sum_list xs = 0" and "\<And>p. p \<in> set xs \<Longrightarrow> 0 \<le> p" by auto
    then have "\<forall>p \<in> set xs. p = 0" by (simp add: sum_list_nonneg_eq_0_iff)
    then have "\<forall>j < length (x # xs). j \<noteq> 0 \<longrightarrow> (x # xs) ! j = 0"
      by (auto simp: nth_Cons split: nat.splits)
    with x1 show ?thesis unfolding one_hot_def by (intro exI [of _ 0]) simp
  next
    assume x0: "x = 0"
    with Cons.prems have "one_hot xs" by (intro Cons.IH) auto
    then obtain i where i: "i < length xs" "xs ! i = 1" "\<forall>j < length xs. j \<noteq> i \<longrightarrow> xs ! j = 0"
      unfolding one_hot_def by blast
    have "\<forall>j < length (x # xs). j \<noteq> Suc i \<longrightarrow> (x # xs) ! j = 0"
      using i(3) x0 by (auto simp: nth_Cons split: nat.splits)
    with i(1,2) show ?thesis unfolding one_hot_def by (intro exI [of _ "Suc i"]) simp
  qed
qed

lemma one_hot_zero_one: "one_hot pk \<Longrightarrow> p \<in> set pk \<Longrightarrow> p = 0 \<or> p = 1"
  by (auto simp: one_hot_def in_set_conv_nth)

lemma entropy_zero_iff:
  assumes v: "valid_distribution pk"
  shows "0 \<le> sum_list (map entr pk)" and "sum_list (map entr pk) = 0 \<longleftrightarrow> one_hot pk"
proof -
  have nn: "\<And>x. x \<in> set (map entr pk) \<Longrightarrow> 0 \<le> x"
    using v valid_le_1 [OF v] by (auto simp: valid_distribution_def intro: entr_nonneg)
  then show "0 \<le> sum_list (map entr pk)" by (rule sum_list_nonneg)
  have "sum_list (map entr pk) = 0 \<longleftrightarrow> (\<forall>x \<in> set (map entr pk). x = 0)"
    using nn by (rule sum_list_nonneg_eq_0_iff)
  also have "\<dots> \<longleftrightarrow> (\<forall>p \<in> set pk. p = 0 \<or> p = 1)"
    using v by (auto simp: valid_distribution_def entr_eq_0_iff)
  also have "\<dots> \<longleftrightarrow> one_hot pk"
    using v zero_one_sum [of pk] one_hot_zero_one [of pk]
    by (auto simp: valid_distribution_def)
  finally show "sum_list (map entr pk) = 0 \<longleftrightarrow> one_hot pk" .
qed


lemma entr_gap:
  assumes K: "0 < K" and p: "0 \<le> p"
  shows "entr p - p * ln K \<le> 1 / K - p"
    and "entr p - p * ln K = 1 / K - p \<longleftrightarrow> p = 1 / K"
proof -
  show le: "entr p - p * ln K \<le> 1 / K - p"
  proof (cases "p = 0")
    case True
    with K show ?thesis by (simp add: entr_def)
  next
    case False
    with p have pos: "0 < p" by simp
    then have x: "0 < 1 / (K * p)" using K by simp
    have "entr p - p * ln K = p * ln (1 / (K * p))"
      using pos K False by (simp add: entr_def ln_div ln_mult algebra_simps)
    also have "\<dots> \<le> p * (1 / (K * p) - 1)"
      using ln_le_minus_one [OF x] pos by (simp add: mult_left_mono)
    also have "\<dots> = 1 / K - p"
      using pos K by (simp add: field_simps)
    finally show ?thesis .
  qed
  show "entr p - p * ln K = 1 / K - p \<longleftrightarrow> p = 1 / K"
  proof
    assume e: "entr p - p * ln K = 1 / K - p"
    have "p \<noteq> 0"
    proof
      assume "p = 0"
      with e K show False by (simp add: entr_def)
    qed
    with p have pos: "0 < p" by simp
    then have x: "0 < 1 / (K * p)" using K by simp
    have a: "entr p - p * ln K = p * ln (1 / (K * p))"
      using pos K by (simp add: entr_def ln_div ln_mult algebra_simps)
    have b: "1 / K - p = p * (1 / (K * p) - 1)"
      using pos K by (simp add: field_simps)
    from e a b have "p * ln (1 / (K * p)) = p * (1 / (K * p) - 1)" by linarith
    with \<open>p \<noteq> 0\<close> have "ln (1 / (K * p)) = 1 / (K * p) - 1"
      using mult_left_cancel [of p "ln (1 / (K * p))" "1 / (K * p) - 1"] by blast
    from ln_eq_minus_one [OF x this] have "K * p = 1" by simp
    with K show "p = 1 / K" by (simp add: field_simps)
  next
    assume "p = 1 / K"
    with K show "entr p - p * ln K = 1 / K - p"
      by (simp add: entr_def ln_div)
  qed
qed

lemma entropy_ln_iff:
  assumes v: "valid_distribution pk"
  shows "sum_list (map entr pk) \<le> ln (real (length pk))"
    and "sum_list (map entr pk) = ln (real (length pk)) \<longleftrightarrow> uniform pk"
proof -
  define K where "K = real (length pk)"
  from v have "pk \<noteq> []" by (auto simp: valid_distribution_def)
  then have K: "0 < K" by (simp add: K_def)
  define d where "d p = (1 / K - p) - (entr p - p * ln K)" for p
  have nn: "\<And>x. x \<in> set (map d pk) \<Longrightarrow> 0 \<le> x"
    using v entr_gap(1) [OF K] by (auto simp: d_def valid_distribution_def)
  have "sum_list (map d pk) =
      sum_list (map (\<lambda>p. 1 / K) pk) - sum_list pk
        - (sum_list (map entr pk) - sum_list (map (\<lambda>p. p * ln K) pk))"
    unfolding d_def by (simp add: sum_list_subtractf)
  also have "sum_list (map (\<lambda>p. 1 / K) pk) = 1"
    using K by (simp add: sum_list_triv K_def)
  also have "sum_list (map (\<lambda>p. p * ln K) pk) = sum_list pk * ln K"
    by (simp add: sum_list_mult_const)
  finally have s: "sum_list (map d pk) = ln K - sum_list (map entr pk)"
    using v by (simp add: valid_distribution_def)
  have "0 \<le> sum_list (map d pk)" using nn by (rule sum_list_nonneg)
  with s show "sum_list (map entr pk) \<le> ln (real (length pk))"
    by (simp add: K_def)
  have "sum_list (map entr pk) = ln K \<longleftrightarrow> sum_list (map d pk) = 0"
    using s by auto
  also have "\<dots> \<longleftrightarrow> (\<forall>x \<in> set (map d pk). x = 0)"
    using nn by (rule sum_list_nonneg_eq_0_iff)
  also have "\<dots> \<longleftrightarrow> (\<forall>p \<in> set pk. p = 1 / K)"
  proof -
    have "d p = 0 \<longleftrightarrow> p = 1 / K" if "p \<in> set pk" for p
    proof -
      from that v have "0 \<le> p" by (simp add: valid_distribution_def)
      from entr_gap(2) [OF K this] show ?thesis by (auto simp: d_def)
    qed
    then show ?thesis by simp
  qed
  finally show "sum_list (map entr pk) = ln (real (length pk)) \<longleftrightarrow> uniform pk"
    by (simp add: uniform_def K_def)
qed

text \<open>
  Claim C9. For a probability vector over \<open>K\<close> classes (non-negative entries that sum
  to 1) the uncertainty, the entropy with the natural logarithm, is defined and lies in
  \<open>[0, ln K]\<close>; it is \<open>0\<close> exactly for a one-hot vector and \<open>ln K\<close> exactly for the
  uniform vector.
\<close>

theorem entropy_range:
  assumes "valid_distribution pk"
  shows "\<exists>H. entropy pk = Some H \<and> 0 \<le> H \<and> H \<le> ln (real (length pk))
           \<and> (H = 0 \<longleftrightarrow> one_hot pk) \<and> (H = ln (real (length pk)) \<longleftrightarrow> uniform pk)"
  using entropy_valid [OF assms] entropy_zero_iff [OF assms] entropy_ln_iff [OF assms]
  by simp

theorem entropy_range_witness:
  "valid_distribution [1 / 2, 1 / 2] \<and> entropy [1 / 2, 1 / 2] = Some (ln 2)
   \<and> uniform [1 / 2, 1 / 2] \<and> \<not> one_hot [1 / 2, 1 / 2]"
proof -
  have v: "valid_distribution [1 / 2, 1 / 2]" by (simp add: valid_distribution_def)
  have u: "uniform [1 / 2, 1 / 2]" by (simp add: uniform_def)
  from entropy_range [OF v] obtain H where
    H: "entropy [1 / 2, 1 / 2] = Some H" "H = ln (real (length [1 / 2, 1 / 2 :: real])) \<longleftrightarrow> uniform [1 / 2, 1 / 2]"
       "H = 0 \<longleftrightarrow> one_hot [1 / 2, 1 / 2]"
    by blast
  from H(2) u have "H = ln 2" by simp
  moreover have "ln (2::real) \<noteq> 0" by simp
  ultimately show ?thesis using v u H(1,3) by simp
qed

end
